theory Spec2Isabelle
  imports Main "HOL-Library.Sublist"
begin

section \<open>JavaScript strings\<close>

text \<open>
  A JavaScript string is modelled as a \<open>string\<close>: the list of its code units, for
  texts whose code units are below 256. In that range the white space of \<open>\s\<close> and of
  \<open>trim()\<close> is TAB, LF, VT, FF, CR, SPACE and NBSP, and the line terminators (what \<open>.\<close>
  does not match, and where \<open>^\<close> matches under the \<open>m\<close> flag) are LF and CR.
\<close>

abbreviation LF :: char where "LF \<equiv> CHR 0x0A"

abbreviation CR :: char where "CR \<equiv> CHR 0x0D"

definition is_ws :: "char \<Rightarrow> bool" where
  "is_ws c \<longleftrightarrow> c = CHR 0x09 \<or> c = LF \<or> c = CHR 0x0B \<or> c = CHR 0x0C \<or> c = CR
     \<or> c = CHR 0x20 \<or> c = CHR 0xA0"

definition is_lt :: "char \<Rightarrow> bool" where
  "is_lt c \<longleftrightarrow> c = LF \<or> c = CR"

definition is_digit :: "char \<Rightarrow> bool" where
  "is_digit c \<longleftrightarrow> c \<in> set ''0123456789''"

text \<open>\<open>s.startsWith(p)\<close>, and \<open>js_includes s n\<close> for \<open>s.includes(n)\<close>.\<close>

definition startsWith :: "string \<Rightarrow> string \<Rightarrow> bool" where
  "startsWith s p = prefix p s"

fun js_includes :: "string \<Rightarrow> string \<Rightarrow> bool" where
  "js_includes [] n = (n = [])"
| "js_includes (c # cs) n = (prefix n (c # cs) \<or> js_includes cs n)"

text \<open>\<open>s.split(d)\<close> for a one-character separator: never empty, \<open>''''\<close> gives \<open>['''']\<close>.\<close>

fun split_on :: "char \<Rightarrow> string \<Rightarrow> string list" where
  "split_on d [] = [[]]"
| "split_on d (c # cs) =
     (if c = d then [] # split_on d cs
      else (case split_on d cs of [] \<Rightarrow> [[c]] | x # xs \<Rightarrow> (c # x) # xs))"

definition trim :: "string \<Rightarrow> string" where
  "trim s = rev (dropWhile is_ws (rev (dropWhile is_ws s)))"

section \<open>Targets and the shell\<close>

datatype DeviceType = Simulator | PhysicalDevice

record Device =
  udid :: string
  name :: string
  type :: DeviceType
  state :: string
  platform :: string
  osVersion :: string
  isAvailable :: bool

text \<open>
  What a rejected promise or a \<open>throw\<close> carries: an error object whose \<open>message\<close> may be
  missing (the source reads it with \<open>?.\<close>).
\<close>

datatype js_error = JsError (message: "string option")

text \<open>
  \<open>execAsync\<close>: a command line either rejects with an error or resolves with the
  standard output of the process.
\<close>

type_synonym shell = "string \<Rightarrow> js_error + string"

section \<open>Device session\<close>

definition already_booted :: string where
  "already_booted = ''Unable to boot device in current state: Booted''"

definition boot_command :: "string \<Rightarrow> string" where
  \<open>boot_command u = ''xcrun simctl boot "'' @ u @ ''"''\<close>

text \<open>
  \<open>bootSimulator\<close>: the \<open>catch\<close> rethrows the error unless its message includes the
  text of \<open>already_booted\<close>; \<open>!error.message?.includes(...)\<close> is true when the message is
  missing.
\<close>

definition bootSimulator :: "shell \<Rightarrow> string \<Rightarrow> js_error + unit" where
  "bootSimulator execAsync u =
     (case execAsync (boot_command u) of
        Inr out \<Rightarrow> Inr ()
      | Inl e \<Rightarrow>
          (if \<not> (case message e of None \<Rightarrow> False | Some m \<Rightarrow> js_includes m already_booted)
           then Inl e else Inr ()))"

definition terminate_command :: "string \<Rightarrow> string \<Rightarrow> string" where
  \<open>terminate_command u b = ''xcrun simctl terminate "'' @ u @ ''" "'' @ b @ ''"''\<close>

text \<open>
  \<open>terminateApp\<close>: the result, and the command lines it ran. The \<open>try\<close> block runs the
  terminate primitive for a simulator only; the \<open>catch\<close> is empty.
\<close>

definition terminateApp :: "shell \<Rightarrow> Device \<Rightarrow> string \<Rightarrow> (js_error + unit) \<times> string list" where
  "terminateApp execAsync d b =
     (if type d = Simulator then
        (case execAsync (terminate_command (udid d) b) of
           Inr out \<Rightarrow> (Inr (), [terminate_command (udid d) b])
         | Inl e \<Rightarrow> (Inr (), [terminate_command (udid d) b]))
      else (Inr (), []))"

section \<open>Log stream session\<close>

datatype LogMode = Stdout | System | Both

text \<open>
  The options of \<open>startLogStream\<close>. The three callbacks of the caller are not fields:
  a call of one of them is a value of \<open>callback\<close> in the output of \<open>deliver\<close>.
\<close>

record LogStreamOptions =
  device :: Device
  bundleId :: string
  mode :: "LogMode option"

datatype callback = OnLog string | OnError string | OnClose

text \<open>
  The two sets of listeners \<open>startLogStream\<close> registers: \<open>Console\<close> on the process of
  the simulator's \<open>stdout\<close> mode (\<open>stdoutLogProcess\<close>), \<open>Stream\<close> on \<open>logProcess\<close> at the end
  of the function.
\<close>

datatype listeners = Console | Stream

text \<open>
  A spawned child process with what the closures of its listeners captured:
  \<open>currentProcessId\<close> and \<open>mode\<close>.
\<close>

record child =
  argv :: "string list"
  currentProcessId :: nat
  attached :: listeners
  captured_mode :: LogMode

text \<open>
  The module's variables \<open>logProcess\<close>, \<open>stdoutLogProcess\<close> and \<open>logProcessId\<close>. A
  \<open>ChildProcess\<close> reference is the index of the child in \<open>children\<close>, the processes
  spawned so far; \<open>killed\<close> lists the references \<open>kill('SIGTERM')\<close> was called on.
  \<open>logProcessId\<close> is a JavaScript number that \<open>++\<close> increments; it is counted in \<open>nat\<close>,
  which agrees with it below \<open>2 ^ 53\<close>.
\<close>

record session =
  logProcess :: "nat option"
  stdoutLogProcess :: "nat option"
  logProcessId :: nat
  children :: "child list"
  killed :: "nat list"

definition initial :: session where
  "initial = \<lparr>logProcess = None, stdoutLogProcess = None, logProcessId = 0,
     children = [], killed = []\<rparr>"

definition spawn :: "child \<Rightarrow> session \<Rightarrow> nat \<times> session" where
  "spawn c s = (length (children s), s\<lparr>children := children s @ [c]\<rparr>)"

definition stopLogStream :: "session \<Rightarrow> bool \<times> session" where
  "stopLogStream s =
     (let (stopped1, s1) =
            (case stdoutLogProcess s of
               Some h \<Rightarrow> (True, s\<lparr>killed := killed s @ [h], stdoutLogProcess := None\<rparr>)
             | None \<Rightarrow> (False, s));
          (stopped2, s2) =
            (case logProcess s1 of
               Some h \<Rightarrow> (True, s1\<lparr>killed := killed s1 @ [h], logProcess := None\<rparr>)
             | None \<Rightarrow> (stopped1, s1))
      in (stopped2, s2))"

definition isLogStreamRunning :: "session \<Rightarrow> bool" where
  "isLogStreamRunning s \<longleftrightarrow> logProcess s \<noteq> None \<or> stdoutLogProcess s \<noteq> None"

text \<open>\<open>bundleId.split('.').pop() || bundleId\<close>\<close>

definition processName :: "string \<Rightarrow> string" where
  "processName b = (let l = last (split_on (CHR ''.'') b) in if l = [] then b else l)"

definition console_argv :: "Device \<Rightarrow> string \<Rightarrow> string list" where
  "console_argv d b =
     [''xcrun'', ''simctl'', ''launch'', ''--console-pty'', ''--terminate-running-process'',
      udid d, b]"

definition system_argv :: "Device \<Rightarrow> string \<Rightarrow> string list" where
  \<open>system_argv d b =
     [''xcrun'', ''simctl'', ''spawn'', udid d, ''log'', ''stream'', ''--level'', ''debug'',
      ''--style'', ''compact'', ''--predicate'',
      ''processImagePath contains "'' @ processName b @ ''" OR subsystem contains "'' @ b @ ''"'']\<close>

definition devicectl_argv :: "Device \<Rightarrow> string \<Rightarrow> string list" where
  "devicectl_argv d b =
     [''xcrun'', ''devicectl'', ''device'', ''process'', ''launch'', ''-d'', udid d,
      ''--console'', ''--terminate-existing'', b]"

definition syslog_argv :: "Device \<Rightarrow> string list" where
  "syslog_argv d = [''idevicesyslog'', ''-u'', udid d]"

text \<open>
  \<open>startLogStream\<close>. The listeners are registered in the same synchronous run as the
  spawn, so the model gives them to the child when it is spawned. In the simulator's
  \<open>stdout\<close> mode \<open>logProcess\<close> is set to the same reference as \<open>stdoutLogProcess\<close> and the
  function returns before the \<open>Stream\<close> listeners are registered. For each of the three
  modes of \<open>LogMode\<close> a branch sets \<open>logProcess\<close>, so \<open>if (!logProcess) return false\<close> is
  never taken and the function returns \<open>true\<close>.
\<close>

definition startLogStream :: "LogStreamOptions \<Rightarrow> session \<Rightarrow> bool \<times> session" where
  "startLogStream opts s0 =
     (let s1 = snd (stopLogStream s0);
          m = (case mode opts of None \<Rightarrow> Stdout | Some x \<Rightarrow> x);
          d = device opts;
          b = bundleId opts;
          cur = logProcessId s1 + 1;
          s2 = s1\<lparr>logProcessId := cur\<rparr>
      in if type d = Simulator then
           (let s3 =
                  (if m = Stdout \<or> m = Both then
                     (let (h, t) = spawn \<lparr>argv = console_argv d b, currentProcessId = cur,
                                           attached = Console, captured_mode = m\<rparr> s2
                      in t\<lparr>stdoutLogProcess := Some h\<rparr>)
                   else s2)
            in if m = Stdout then (True, s3\<lparr>logProcess := stdoutLogProcess s3\<rparr>)
               else
                 (let (h, t) = spawn \<lparr>argv = system_argv d b, currentProcessId = cur,
                                       attached = Stream, captured_mode = m\<rparr> s3
                  in (True, t\<lparr>logProcess := Some h\<rparr>)))
         else
           (let (h, t) =
                  spawn \<lparr>argv = (if m = Stdout \<or> m = Both then devicectl_argv d b
                                  else syslog_argv d),
                         currentProcessId = cur, attached = Stream, captured_mode = m\<rparr> s2
            in (True, t\<lparr>logProcess := Some h\<rparr>)))"

text \<open>What arrives from a child process: a chunk on a pipe, its exit, or a spawn error.\<close>

datatype event = StdoutData string | StderrData string | Close | SpawnError string

text \<open>The lines of a chunk that are forwarded: \<open>split('\n')\<close>, then \<open>if (line.trim())\<close>.\<close>

definition log_lines :: "string \<Rightarrow> string list" where
  "log_lines chunk = filter (\<lambda>l. trim l \<noteq> []) (split_on LF chunk)"

definition console_listener :: "child \<Rightarrow> event \<Rightarrow> session \<Rightarrow> callback list \<times> session" where
  "console_listener c ev s =
     (if currentProcessId c \<noteq> logProcessId s then ([], s)
      else (case ev of
              StdoutData chunk \<Rightarrow> (map OnLog (log_lines chunk), s)
            | StderrData chunk \<Rightarrow> (map (\<lambda>l. OnLog (''[stderr] '' @ l)) (log_lines chunk), s)
            | Close \<Rightarrow>
                (if captured_mode c = Stdout then [OnClose] else [],
                 s\<lparr>stdoutLogProcess := None\<rparr>)
            | SpawnError msg \<Rightarrow> ([OnError msg], s)))"

definition stream_listener :: "child \<Rightarrow> event \<Rightarrow> session \<Rightarrow> callback list \<times> session" where
  "stream_listener c ev s =
     (if currentProcessId c \<noteq> logProcessId s then ([], s)
      else (case ev of
              StdoutData chunk \<Rightarrow> (map OnLog (log_lines chunk), s)
            | StderrData chunk \<Rightarrow> ([OnError chunk], s)
            | Close \<Rightarrow> ([OnClose], s\<lparr>logProcess := None\<rparr>)
            | SpawnError msg \<Rightarrow> ([OnError msg], s\<lparr>logProcess := None\<rparr>)))"

text \<open>
  An event of child \<open>h\<close> reaches the listeners registered on it; a reference that was
  never spawned has none.
\<close>

definition deliver :: "nat \<Rightarrow> event \<Rightarrow> session \<Rightarrow> callback list \<times> session" where
  "deliver h ev s =
     (if h < length (children s) then
        (case attached (children s ! h) of
           Console \<Rightarrow> console_listener (children s ! h) ev s
         | Stream \<Rightarrow> stream_listener (children s ! h) ev s)
      else ([], s))"

text \<open>Whatever happens to a session later: calls of its two operations and events.\<close>

datatype action = Start LogStreamOptions | Stop | Deliver nat event

fun perform :: "action \<Rightarrow> session \<Rightarrow> session" where
  "perform (Start opts) s = snd (startLogStream opts s)"
| "perform Stop s = snd (stopLogStream s)"
| "perform (Deliver h ev) s = snd (deliver h ev s)"

fun run :: "action list \<Rightarrow> session \<Rightarrow> session" where
  "run [] s = s"
| "run (a # as) s = run as (perform a s)"

section \<open>Regular expressions of the source\<close>

text \<open>
  A search without the sticky flag tries the pattern at every position from the left,
  the end of the input included, and stops at the first position where it matches.
\<close>

fun leftmost :: "(string \<Rightarrow> 'a option) \<Rightarrow> string \<Rightarrow> 'a option" where
  "leftmost f [] = f []"
| "leftmost f (c # cs) = (case f (c # cs) of Some r \<Rightarrow> Some r | None \<Rightarrow> leftmost f cs)"

text \<open>
  \<open>/iOS-(\d+)-(\d+)/\<close> at one position: both groups are maximal runs of digits (a
  shorter first run would be followed by a digit, not by \<open>-\<close>).
\<close>

definition runtime_at :: "string \<Rightarrow> (string \<times> string) option" where
  "runtime_at s =
     (if prefix ''iOS-'' s then
        (let r = drop 4 s; major = takeWhile is_digit r; r2 = dropWhile is_digit r
         in if major \<noteq> [] \<and> prefix ''-'' r2 then
              (let minor = takeWhile is_digit (tl r2)
               in if minor \<noteq> [] then Some (major, minor) else None)
            else None)
      else None)"

definition runtimeMatch :: "string \<Rightarrow> (string \<times> string) option" where
  "runtimeMatch runtime = leftmost runtime_at runtime"

section \<open>Target catalog\<close>

record SimctlDevice =
  sim_udid :: string
  sim_name :: string
  sim_state :: string
  sim_isAvailable :: bool

text \<open>\<open>Object.entries(data.devices)\<close>: the runtimes with their devices, in the order of the entries.\<close>

type_synonym SimctlOutput = "(string \<times> SimctlDevice list) list"

definition simctl_list_command :: string where
  "simctl_list_command = ''xcrun simctl list devices available --json''"

definition simulator_osVersion :: "string \<Rightarrow> string" where
  "simulator_osVersion runtime =
     (case runtimeMatch runtime of
        Some (major, minor) \<Rightarrow> major @ ''.'' @ minor
      | None \<Rightarrow> ''Unknown'')"

definition simulator_device :: "string \<Rightarrow> SimctlDevice \<Rightarrow> Device" where
  "simulator_device runtime d =
     \<lparr>udid = sim_udid d, name = sim_name d, type = Simulator, state = sim_state d,
      platform = ''iOS Simulator'', osVersion = simulator_osVersion runtime,
      isAvailable = sim_isAvailable d\<rparr>"

text \<open>
  The body of the \<open>try\<close> of \<open>listSimulators\<close> (the one \<open>listAllDevices\<close> calls).
  \<open>parse\<close> stands for \<open>JSON.parse\<close> read at the declared type \<open>SimctlOutput\<close>: \<open>Inl\<close> when
  \<open>JSON.parse\<close> throws, or when the parsed value has another shape and walking it throws.
  The devices are pushed in the order of the entries; the function does not sort.
\<close>

definition listSimulators_body ::
  "shell \<Rightarrow> (string \<Rightarrow> js_error + SimctlOutput) \<Rightarrow> js_error + Device list" where
  "listSimulators_body execAsync parse =
     (case execAsync simctl_list_command of
        Inl e \<Rightarrow> Inl e
      | Inr out \<Rightarrow>
          (case parse out of
             Inl e \<Rightarrow> Inl e
           | Inr entries \<Rightarrow>
               Inr (concat (map (\<lambda>(runtime, simDevices).
                      map (simulator_device runtime) (filter sim_isAvailable simDevices))
                    entries))))"

definition listSimulators ::
  "shell \<Rightarrow> (string \<Rightarrow> js_error + SimctlOutput) \<Rightarrow> js_error + Device list" where
  "listSimulators execAsync parse =
     (case listSimulators_body execAsync parse of Inl e \<Rightarrow> Inr [] | Inr ds \<Rightarrow> Inr ds)"

text \<open>
  An entry of \<open>data.result?.devices || []\<close> of the \<open>devicectl\<close> query; \<open>None\<close> is a property
  that is missing along a \<open>?.\<close> chain.
\<close>

record DevicectlDevice =
  transportType :: "string option"
  hardware_udid :: "string option"
  device_identifier :: string
  device_name :: "string option"
  osVersionNumber :: "string option"

definition devicectl_command :: string where
  "devicectl_command = ''xcrun devicectl list devices --json-output /dev/stdout 2>/dev/null''"

text \<open>\<open>x || d\<close> for an optional string: \<open>d\<close> when \<open>x\<close> is missing or empty.\<close>

definition or_else :: "string option \<Rightarrow> string \<Rightarrow> string" where
  "or_else x d = (case x of None \<Rightarrow> d | Some v \<Rightarrow> if v = [] then d else v)"

definition devicectl_device :: "DevicectlDevice \<Rightarrow> Device" where
  "devicectl_device d =
     \<lparr>udid = or_else (hardware_udid d) (device_identifier d),
      name = or_else (device_name d) ''Unknown Device'',
      type = PhysicalDevice,
      state = (if transportType d = Some ''wired'' then ''Connected'' else ''Network''),
      platform = ''iOS'',
      osVersion = or_else (osVersionNumber d) ''Unknown'',
      isAvailable = True\<rparr>"

definition listDevicesWithDevicectl ::
  "shell \<Rightarrow> (string \<Rightarrow> js_error + DevicectlDevice list) \<Rightarrow> js_error + Device list" where
  "listDevicesWithDevicectl execAsync parse =
     (case execAsync devicectl_command of
        Inl e \<Rightarrow> Inr []
      | Inr out \<Rightarrow>
          (case parse out of
             Inl e \<Rightarrow> Inr []
           | Inr ds \<Rightarrow>
               Inr (map devicectl_device
                      (filter (\<lambda>d. transportType d = Some ''wired''
                                    \<or> transportType d = Some ''network'') ds))))"

text \<open>
  The line pattern of the \<open>xctrace\<close> fallback,
  \<open>/^(.+?)\s+\((\d+\.\d+(?:\.\d+)?)\)\s+\(([A-F0-9-]+)\)$/i\<close>. After the name every piece
  is a maximal run followed by a fixed character, so the rest of the line is read
  deterministically by \<open>xctrace_tail\<close>; the lazy \<open>(.+?)\<close> takes the shortest name, of one
  character at least and without line terminator, after which the rest matches.
\<close>

definition version_at :: "string \<Rightarrow> (string \<times> string) option" where
  "version_at s =
     (let a = takeWhile is_digit s; r = dropWhile is_digit s
      in if a = [] then None
         else (case r of
                 [] \<Rightarrow> None
               | c # r1 \<Rightarrow>
                   if c \<noteq> CHR ''.'' then None
                   else (let b = takeWhile is_digit r1; r2 = dropWhile is_digit r1
                         in if b = [] then None
                            else (case r2 of
                                    [] \<Rightarrow> Some (a @ ''.'' @ b, r2)
                                  | c2 # r3 \<Rightarrow>
                                      if c2 = CHR ''.'' \<and> takeWhile is_digit r3 \<noteq> []
                                      then Some (a @ ''.'' @ b @ ''.'' @ takeWhile is_digit r3,
                                                 dropWhile is_digit r3)
                                      else Some (a @ ''.'' @ b, r2)))))"

definition is_hex_dash :: "char \<Rightarrow> bool" where
  "is_hex_dash c \<longleftrightarrow> c \<in> set ''ABCDEFabcdef0123456789-''"

definition xctrace_tail :: "string \<Rightarrow> (string \<times> string) option" where
  "xctrace_tail s =
     (let r1 = dropWhile is_ws s
      in if takeWhile is_ws s = [] then None
         else (case r1 of
                 [] \<Rightarrow> None
               | c1 # r2 \<Rightarrow>
                   if c1 \<noteq> CHR ''('' then None
                   else (case version_at r2 of
                           None \<Rightarrow> None
                         | Some (v, r3) \<Rightarrow>
                             (case r3 of
                                [] \<Rightarrow> None
                              | c3 # r4 \<Rightarrow>
                                  if c3 \<noteq> CHR '')'' \<or> takeWhile is_ws r4 = [] then None
                                  else (case dropWhile is_ws r4 of
                                          [] \<Rightarrow> None
                                        | c5 # r6 \<Rightarrow>
                                            if c5 = CHR ''(''
                                               \<and> takeWhile is_hex_dash r6 \<noteq> []
                                               \<and> dropWhile is_hex_dash r6 = '')''
                                            then Some (v, takeWhile is_hex_dash r6)
                                            else None)))))"

fun xctrace_from :: "string \<Rightarrow> string \<Rightarrow> (string \<times> string \<times> string) option" where
  "xctrace_from acc [] = None"
| "xctrace_from acc (c # cs) =
     (if is_lt c then None
      else (case xctrace_tail cs of
              Some (v, u) \<Rightarrow> Some (acc @ [c], v, u)
            | None \<Rightarrow> xctrace_from (acc @ [c]) cs))"

definition xctrace_match :: "string \<Rightarrow> (string \<times> string \<times> string) option" where
  "xctrace_match line = xctrace_from [] line"

text \<open>\<open>toLowerCase()\<close> on code units below 256.\<close>

definition toLowerCase :: "string \<Rightarrow> string" where
  "toLowerCase s =
     map (\<lambda>c. let n = (of_char c :: nat)
               in if (65 \<le> n \<and> n \<le> 90) \<or> (192 \<le> n \<and> n \<le> 222 \<and> n \<noteq> 215)
                  then char_of (n + 32) else c) s"

definition xctrace_command :: string where
  "xctrace_command = ''xcrun xctrace list devices 2>/dev/null''"

definition xctrace_device :: "string \<Rightarrow> Device option" where
  "xctrace_device line =
     (case xctrace_match line of
        None \<Rightarrow> None
      | Some (n, v, u) \<Rightarrow>
          if js_includes (toLowerCase line) ''simulator'' then None
          else Some \<lparr>udid = u, name = trim n, type = PhysicalDevice, state = ''Connected'',
                     platform = ''iOS'', osVersion = v, isAvailable = True\<rparr>)"

definition listDevicesWithInstruments :: "shell \<Rightarrow> js_error + Device list" where
  "listDevicesWithInstruments execAsync =
     (case execAsync xctrace_command of
        Inl e \<Rightarrow> Inr []
      | Inr out \<Rightarrow> Inr (List.map_filter xctrace_device (split_on LF out)))"

text \<open>
  \<open>listRealDevices\<close>: the \<open>devicectl\<close> query first, the \<open>xctrace\<close> query when it gives no
  device; the \<open>catch\<close> around both gives the empty list.
\<close>

definition listRealDevices ::
  "shell \<Rightarrow> (string \<Rightarrow> js_error + DevicectlDevice list) \<Rightarrow> js_error + Device list" where
  "listRealDevices execAsync parse =
     (case (case listDevicesWithDevicectl execAsync parse of
              Inl e \<Rightarrow> Inl e
            | Inr ds \<Rightarrow> if length ds > 0 then Inr ds else listDevicesWithInstruments execAsync)
      of Inl e \<Rightarrow> Inr [] | Inr ds \<Rightarrow> Inr ds)"

text \<open>\<open>listAllDevices\<close> awaits both; a rejection of either would reject the call.\<close>

definition listAllDevices ::
  "shell \<Rightarrow> (string \<Rightarrow> js_error + SimctlOutput)
     \<Rightarrow> (string \<Rightarrow> js_error + DevicectlDevice list) \<Rightarrow> js_error + Device list" where
  "listAllDevices execAsync parse_simctl parse_devicectl =
     (case listSimulators execAsync parse_simctl of
        Inl e \<Rightarrow> Inl e
      | Inr simulators \<Rightarrow>
          (case listRealDevices execAsync parse_devicectl of
             Inl e \<Rightarrow> Inl e
           | Inr realDevices \<Rightarrow> Inr (simulators @ realDevices)))"

section \<open>The sorted simulator list of \<open>simulator/list.ts\<close>\<close>

text \<open>
  The repository holds a second \<open>listSimulators\<close>, exported by \<open>simulator/list.ts\<close>, which
  \<open>listAllDevices\<close> does not call. It returns \<open>Simulator\<close> values, whose \<open>runtime\<close> is the
  name \<open>iOS <major>.<minor>\<close>, and sorts them: booted first, then by version, newest
  first, then by name.
\<close>

record ListedSimulator =
  listed_udid :: string
  listed_name :: string
  listed_state :: string
  listed_runtime :: string
  listed_isAvailable :: bool

text \<open>
  \<open>/iOS (\d+)\.(\d+)/\<close> at one position, and \<open>parseInt\<close> of a run of digits. \<open>parseInt\<close>
  returns a double: \<open>parseInt\<close> here is its value for a run of digits below \<open>2 ^ 53\<close>, where
  the double is exact, as the numbers of a runtime version are.
\<close>

definition ios_version_at :: "string \<Rightarrow> (string \<times> string) option" where
  "ios_version_at s =
     (if prefix ''iOS '' s then
        (let r = drop 4 s; major = takeWhile is_digit r; r2 = dropWhile is_digit r
         in if major \<noteq> [] \<and> prefix ''.'' r2 then
              (let minor = takeWhile is_digit (tl r2)
               in if minor \<noteq> [] then Some (major, minor) else None)
            else None)
      else None)"

definition digit_of :: "char \<Rightarrow> int" where
  "digit_of c = int (of_char c) - 48"

definition parseInt :: "string \<Rightarrow> int" where
  "parseInt ds = foldl (\<lambda>n c. 10 * n + digit_of c) 0 ds"

text \<open>
  The comparator of the sort; \<open>localeCompare\<close> is the host's comparison of names.
\<close>

definition compare_simulators ::
  "(string \<Rightarrow> string \<Rightarrow> int) \<Rightarrow> ListedSimulator \<Rightarrow> ListedSimulator \<Rightarrow> int" where
  "compare_simulators localeCompare a b =
     (if listed_state a = ''Booted'' \<and> listed_state b \<noteq> ''Booted'' then - 1
      else if listed_state a \<noteq> ''Booted'' \<and> listed_state b = ''Booted'' then 1
      else (case (leftmost ios_version_at (listed_runtime a),
                  leftmost ios_version_at (listed_runtime b)) of
              (Some (majorA, minorA), Some (majorB, minorB)) \<Rightarrow>
                if parseInt majorB - parseInt majorA \<noteq> 0 then parseInt majorB - parseInt majorA
                else if parseInt minorB - parseInt minorA \<noteq> 0
                  then parseInt minorB - parseInt minorA
                else localeCompare (listed_name a) (listed_name b)
            | _ \<Rightarrow> localeCompare (listed_name a) (listed_name b)))"

text \<open>
  \<open>Array.prototype.sort\<close> is stable; where the comparator is a consistent ordering of
  the elements, its result is the one of this stable insertion sort.
\<close>

fun insert_by :: "('a \<Rightarrow> 'a \<Rightarrow> int) \<Rightarrow> 'a \<Rightarrow> 'a list \<Rightarrow> 'a list" where
  "insert_by cmp x [] = [x]"
| "insert_by cmp x (y # ys) = (if cmp x y < 0 then x # y # ys else y # insert_by cmp x ys)"

definition sort_by :: "('a \<Rightarrow> 'a \<Rightarrow> int) \<Rightarrow> 'a list \<Rightarrow> 'a list" where
  "sort_by cmp xs = foldl (\<lambda>sorted x. insert_by cmp x sorted) [] xs"

definition listed_simulator :: "string \<Rightarrow> SimctlDevice \<Rightarrow> ListedSimulator" where
  "listed_simulator runtime d =
     \<lparr>listed_udid = sim_udid d, listed_name = sim_name d, listed_state = sim_state d,
      listed_runtime =
        (case runtimeMatch runtime of
           Some (major, minor) \<Rightarrow> ''iOS '' @ major @ ''.'' @ minor
         | None \<Rightarrow> runtime),
      listed_isAvailable = sim_isAvailable d\<rparr>"

text \<open>
  This \<open>listSimulators\<close> rethrows a failure as a new error, \<open>Failed to list simulators.
  Make sure Xcode is installed.\<close>
\<close>

definition listSimulators_sorted ::
  "shell \<Rightarrow> (string \<Rightarrow> js_error + SimctlOutput) \<Rightarrow> (string \<Rightarrow> string \<Rightarrow> int)
     \<Rightarrow> js_error + ListedSimulator list" where
  "listSimulators_sorted execAsync parse localeCompare =
     (case (case execAsync simctl_list_command of
              Inl e \<Rightarrow> Inl e
            | Inr out \<Rightarrow>
                (case parse out of
                   Inl e \<Rightarrow> Inl e
                 | Inr entries \<Rightarrow>
                     Inr (sort_by (compare_simulators localeCompare)
                       (concat (map (\<lambda>(runtime, simDevices).
                          map (listed_simulator runtime) (filter sim_isAvailable simDevices))
                        entries)))))
      of Inl e \<Rightarrow>
           Inl (JsError (Some ''Failed to list simulators. Make sure Xcode is installed.''))
       | Inr simulators \<Rightarrow> Inr simulators)"

section \<open>Build session\<close>

datatype ProjectType = Workspace | Project

record XcodeProject =
  project_path :: string
  project_name :: string
  project_type :: ProjectType

record BuildOptions =
  project :: XcodeProject
  scheme :: string
  build_device :: Device
  derivedDataPath :: "string option"
  clean :: bool

record BuildResult =
  success :: bool
  appPath :: "string option"
  duration :: nat
  error :: "string option"

text \<open>
  What the \<open>close\<close> listener reads from Node: two environment variables,
  \<open>fs.readdirSync\<close> (which may throw), \<open>path.join\<close>, and the regular expressions of the
  host: \<open>regexp_match pattern text\<close> is \<open>text.match(new RegExp(pattern, 'm'))\<close>, \<open>Inl\<close> when
  \<open>new RegExp\<close> throws on a text that is no pattern, else group 1 of the first match.
\<close>

record node =
  env_HOME :: "string option"
  env_USER :: "string option"
  readdirSync :: "string \<Rightarrow> js_error + string list"
  path_join :: "string list \<Rightarrow> string"
  regexp_match :: "string \<Rightarrow> string \<Rightarrow> js_error + string option"

text \<open>
  \<open>/^(Compile|Link|Copy|Process|Sign|Build|Analyze|CodeSign)/m\<close>: the alternatives are
  tried in this order at the start of the chunk and after every line terminator of it;
  \<open>match\<close> without the \<open>g\<close> flag gives the first match of the chunk only.
\<close>

definition phases :: "string list" where
  "phases = [''Compile'', ''Link'', ''Copy'', ''Process'', ''Sign'', ''Build'', ''Analyze'',
     ''CodeSign'']"

definition phase_at :: "string \<Rightarrow> string option" where
  "phase_at s = List.find (\<lambda>k. prefix k s) phases"

fun phase_search :: "bool \<Rightarrow> string \<Rightarrow> string option" where
  "phase_search line_start [] = (if line_start then phase_at [] else None)"
| "phase_search line_start (c # cs) =
     (case (if line_start then phase_at (c # cs) else None) of
        Some k \<Rightarrow> Some k
      | None \<Rightarrow> phase_search (is_lt c) cs)"

definition phaseMatch :: "string \<Rightarrow> string option" where
  "phaseMatch chunk = phase_search True chunk"

text \<open>
  \<open>/error: (.+)/\<close> at one position: the group is the maximal run of characters that are
  not line terminators, and it is not empty.
\<close>

definition error_at :: "string \<Rightarrow> string option" where
  "error_at s =
     (if prefix ''error: '' s then
        (let m = takeWhile (\<lambda>c. \<not> is_lt c) (drop 7 s) in if m = [] then None else Some m)
      else None)"

definition errorMatch :: "string \<Rightarrow> string option" where
  "errorMatch errorOutput = leftmost error_at errorOutput"

text \<open>
  The pattern of the artifact path is built from the scheme without escaping it:
  \<open>new RegExp(`(/[^\\s]+/${productDir}/${options.scheme}\\.app)(?:\\s|$)`, 'm')\<close>. After
  \<open>[^\s]+\<close> the pattern is a sequence of one-character atoms when the scheme has no
  character with a meaning in a pattern other than \<open>.\<close>, which is the wildcard. Such a
  pattern is matched here (\<open>appPathMatch\<close>). A scheme with another such character
  (\<open>regex_special\<close>: a quantifier, a group, a class, an escape, an anchor, an alternative)
  is not interpreted: its pattern text goes to \<open>regexp_match\<close> of the host
  (\<open>appPath_search\<close>). A \<open>literal_scheme\<close> has no such character and no dot: as a pattern it
  is its own text.
\<close>

datatype atom = Lit char | AnyChar

fun atom_matches :: "atom \<Rightarrow> char \<Rightarrow> bool" where
  "atom_matches (Lit x) c = (x = c)"
| "atom_matches AnyChar c = (\<not> is_lt c)"

definition regex_special :: "char \<Rightarrow> bool" where
  "regex_special c \<longleftrightarrow> c \<in> set [CHR 0x5C, CHR ''^'', CHR ''$'', CHR ''*'', CHR ''+'', CHR ''?'',
     CHR ''('', CHR '')'', CHR ''['', CHR '']'', CHR ''{'', CHR ''}'', CHR ''|'']"

definition literal_scheme :: "string \<Rightarrow> bool" where
  "literal_scheme s \<longleftrightarrow> (\<forall>c \<in> set s. c \<noteq> CHR ''.'' \<and> \<not> regex_special c)"

definition scheme_atoms :: "string \<Rightarrow> atom list" where
  "scheme_atoms s = map (\<lambda>c. if c = CHR ''.'' then AnyChar else Lit c) s"

definition app_pattern :: "string \<Rightarrow> string \<Rightarrow> atom list" where
  "app_pattern dir s = map Lit (''/'' @ dir @ ''/'') @ scheme_atoms s @ map Lit ''.app''"

text \<open>The atoms against the start of a text: what is left of the text after them.\<close>

fun match_atoms :: "atom list \<Rightarrow> string \<Rightarrow> string option" where
  "match_atoms [] s = Some s"
| "match_atoms (a # as) [] = None"
| "match_atoms (a # as) (c # cs) = (if atom_matches a c then match_atoms as cs else None)"

text \<open>
  \<open>(?:\s|$)\<close> under the \<open>m\<close> flag: a white space character follows, or the input ends (a
  line terminator is a white space character).
\<close>

definition boundary :: "string \<Rightarrow> bool" where
  "boundary rest = (case rest of [] \<Rightarrow> True | c # cs \<Rightarrow> is_ws c)"

text \<open>
  The greedy \<open>[^\s]+\<close> after the leading \<open>/\<close>: \<open>k\<close> characters, the longest run first, one
  at least; group 1 is the slash, the run and the atoms' text.
\<close>

fun try_run :: "atom list \<Rightarrow> string \<Rightarrow> nat \<Rightarrow> string option" where
  "try_run pat r 0 = None"
| "try_run pat r (Suc k) =
     (case match_atoms pat (drop (Suc k) r) of
        Some rest \<Rightarrow>
          if boundary rest then Some (CHR ''/'' # take (Suc k + length pat) r)
          else try_run pat r k
      | None \<Rightarrow> try_run pat r k)"

definition app_at :: "atom list \<Rightarrow> string \<Rightarrow> string option" where
  "app_at pat s =
     (case s of
        [] \<Rightarrow> None
      | c # r \<Rightarrow>
          if c = CHR ''/'' then try_run pat r (length (takeWhile (\<lambda>x. \<not> is_ws x) r))
          else None)"

definition appPathMatch :: "string \<Rightarrow> string \<Rightarrow> string \<Rightarrow> string option" where
  "appPathMatch dir s buildOutput = leftmost (app_at (app_pattern dir s)) buildOutput"

text \<open>The text of the pattern as the template literal builds it.\<close>

definition app_pattern_text :: "string \<Rightarrow> string \<Rightarrow> string" where
  "app_pattern_text dir s =
     ''(/[^'' @ [CHR 0x5C] @ ''s]+/'' @ dir @ ''/'' @ s @ [CHR 0x5C] @ ''.app)(?:''
     @ [CHR 0x5C] @ ''s|$)''"

definition appPath_search :: "node \<Rightarrow> string \<Rightarrow> string \<Rightarrow> string \<Rightarrow> js_error + string option" where
  "appPath_search n dir s buildOutput =
     (if \<exists>c \<in> set s. regex_special c then regexp_match n (app_pattern_text dir s) buildOutput
      else Inr (appPathMatch dir s buildOutput))"

definition productDir :: "Device \<Rightarrow> string" where
  "productDir d = (if type d = Simulator then ''Debug-iphonesimulator'' else ''Debug-iphoneos'')"

text \<open>\<open>global.process.env.HOME || '/Users/' + global.process.env.USER\<close>\<close>

definition homeDir :: "node \<Rightarrow> string" where
  "homeDir n =
     or_else (env_HOME n)
       (''/Users/'' @ (case env_USER n of None \<Rightarrow> ''undefined'' | Some u \<Rightarrow> u))"

definition defaultDerivedData :: "node \<Rightarrow> string" where
  "defaultDerivedData n = path_join n [homeDir n, ''Library/Developer/Xcode/DerivedData'']"

text \<open>
  The ways of the \<open>close\<close> listener to the artifact path once the pattern has been
  searched: the match, the override, the default directory, in the source's order.
\<close>

definition appPath_of_match :: "node \<Rightarrow> BuildOptions \<Rightarrow> string option \<Rightarrow> string option" where
  "appPath_of_match n opts appPathMatched =
     (let dir = productDir (build_device opts)
      in case appPathMatched of
           Some p \<Rightarrow> Some p
         | None \<Rightarrow>
             if or_else (derivedDataPath opts) [] \<noteq> [] then
               Some (path_join n [or_else (derivedDataPath opts) [], ''Build/Products'', dir,
                                  scheme opts @ ''.app''])
             else
               (case readdirSync n (defaultDerivedData n) of
                  Inl e \<Rightarrow> None
                | Inr dirs \<Rightarrow>
                    (case List.find (\<lambda>d. startsWith d (scheme opts)
                                         \<or> startsWith d (project_name (project opts))) dirs of
                       None \<Rightarrow> None
                     | Some projectDir \<Rightarrow>
                         if projectDir \<noteq> [] then
                           Some (path_join n [defaultDerivedData n, projectDir,
                                              ''Build/Products'', dir, scheme opts @ ''.app''])
                         else None)))"

text \<open>
  \<open>new RegExp\<close> stands outside every \<open>try\<close> of the listener: when it throws, so does the
  listener.
\<close>

definition resolve_appPath :: "node \<Rightarrow> BuildOptions \<Rightarrow> string \<Rightarrow> js_error + string option" where
  "resolve_appPath n opts buildOutput =
     (case appPath_search n (productDir (build_device opts)) (scheme opts) buildOutput of
        Inl e \<Rightarrow> Inl e
      | Inr appPathMatched \<Rightarrow> Inr (appPath_of_match n opts appPathMatched))"

text \<open>
  The variables of one \<open>build\<close> call, and the messages passed to \<open>onProgress\<close> so far. The
  output channel, which gets a copy of every chunk, is write-only and left out.
\<close>

record build_vars =
  lastPhase :: string
  errorOutput :: string
  buildOutput :: string
  notified :: "string list"

definition build_start :: build_vars where
  "build_start = \<lparr>lastPhase = [], errorOutput = [], buildOutput = [], notified = []\<rparr>"

definition on_stdout :: "string \<Rightarrow> build_vars \<Rightarrow> build_vars" where
  "on_stdout chunk v =
     (let v1 = v\<lparr>buildOutput := buildOutput v @ chunk\<rparr>
      in case phaseMatch chunk of
           None \<Rightarrow> v1
         | Some p \<Rightarrow>
             if p \<noteq> lastPhase v1 then v1\<lparr>lastPhase := p, notified := notified v1 @ [p @ ''...'']\<rparr>
             else v1)"

definition on_stderr :: "string \<Rightarrow> build_vars \<Rightarrow> build_vars" where
  "on_stderr chunk v = v\<lparr>errorOutput := errorOutput v @ chunk\<rparr>"

text \<open>
  The \<open>close\<close> listener with the exit code (\<open>null\<close> when a signal ended the process) and
  the time since the start of the call; \<open>errorMatch?.[1] || 'Build failed'\<close>. Its value is
  what it passes to \<open>resolve\<close>, or the error it throws before it gets there.
\<close>

definition on_close ::
  "node \<Rightarrow> BuildOptions \<Rightarrow> int option \<Rightarrow> nat \<Rightarrow> build_vars \<Rightarrow> js_error + BuildResult" where
  "on_close n opts exit_code elapsed v =
     (if exit_code = Some 0 then
        (case resolve_appPath n opts (buildOutput v) of
           Inl e \<Rightarrow> Inl e
         | Inr p \<Rightarrow> Inr \<lparr>success = True, appPath = p, duration = elapsed, error = None\<rparr>)
      else
        Inr \<lparr>success = False, appPath = None, duration = elapsed,
             error = Some (or_else (errorMatch (errorOutput v)) ''Build failed'')\<rparr>)"

definition on_error :: "string \<Rightarrow> nat \<Rightarrow> BuildResult" where
  "on_error msg elapsed =
     \<lparr>success = False, appPath = None, duration = elapsed, error = Some msg\<rparr>"

datatype build_event =
  BuildStdout string
| BuildStderr string
| BuildClose "int option" nat
| BuildError string nat

text \<open>
  One \<open>build\<close> call over the events of its process: the value the promise resolves with
  (\<open>None\<close> while no \<open>close\<close> or \<open>error\<close> event has come; the first resolution stands) and
  the messages passed to \<open>onProgress\<close>. A \<open>close\<close> listener that throws resolves nothing,
  and no event of the process follows \<open>close\<close>: the promise stays pending.
\<close>

fun build_loop :: "node \<Rightarrow> BuildOptions \<Rightarrow> build_event list \<Rightarrow> build_vars
    \<Rightarrow> BuildResult option \<times> string list" where
  "build_loop n opts [] v = (None, notified v)"
| "build_loop n opts (BuildStdout chunk # evs) v = build_loop n opts evs (on_stdout chunk v)"
| "build_loop n opts (BuildStderr chunk # evs) v = build_loop n opts evs (on_stderr chunk v)"
| "build_loop n opts (BuildClose exit_code elapsed # evs) v =
     (case on_close n opts exit_code elapsed v of Inl e \<Rightarrow> None | Inr r \<Rightarrow> Some r,
      notified v)"
| "build_loop n opts (BuildError msg elapsed # evs) v = (Some (on_error msg elapsed), notified v)"

definition build :: "node \<Rightarrow> BuildOptions \<Rightarrow> build_event list
    \<Rightarrow> BuildResult option \<times> string list" where
  "build n opts evs = build_loop n opts evs build_start"

text \<open>
  A backend query fails when its process fails or when its output is malformed: the
  command rejects, or reading its output throws.
\<close>

definition query_failed :: "shell \<Rightarrow> string \<Rightarrow> (string \<Rightarrow> js_error + 'a) \<Rightarrow> bool" where
  "query_failed execAsync cmd parse =
     (case execAsync cmd of
        Inl e \<Rightarrow> True
      | Inr out \<Rightarrow> (case parse out of Inl e \<Rightarrow> True | Inr x \<Rightarrow> False))"

text \<open>The physical devices of the \<open>devicectl\<close> output that are reachable: wired or on the network.\<close>

definition reachable :: "DevicectlDevice \<Rightarrow> bool" where
  "reachable d \<longleftrightarrow> transportType d = Some ''wired'' \<or> transportType d = Some ''network''"

text \<open>
  What the pipes of the build process deliver before it exits: chunks of standard output
  and of standard error, in the order of their arrival.
\<close>

datatype pipe_chunk = Out string | Err string

fun pipe_event :: "pipe_chunk \<Rightarrow> build_event" where
  "pipe_event (Out chunk) = BuildStdout chunk"
| "pipe_event (Err chunk) = BuildStderr chunk"

fun outs :: "pipe_chunk list \<Rightarrow> string list" where
  "outs [] = []"
| "outs (Out chunk # cs) = chunk # outs cs"
| "outs (Err chunk # cs) = outs cs"

fun errs :: "pipe_chunk list \<Rightarrow> string list" where
  "errs [] = []"
| "errs (Out chunk # cs) = errs cs"
| "errs (Err chunk # cs) = chunk # errs cs"

text \<open>The variables of the call after these chunks.\<close>

fun feed :: "pipe_chunk list \<Rightarrow> build_vars \<Rightarrow> build_vars" where
  "feed [] v = v"
| "feed (Out chunk # cs) v = feed cs (on_stdout chunk v)"
| "feed (Err chunk # cs) v = feed cs (on_stderr chunk v)"

text \<open>
  The error of a failed build in the words of the specification: the lines of the
  accumulated standard error are what the line terminators separate; a line matches
  \<open>error: <message>\<close> when it contains \<open>error: \<close> with at least one character after its
  first occurrence, and these characters are its message; the first matching line counts.
\<close>

fun lines_of :: "string \<Rightarrow> string list" where
  "lines_of [] = [[]]"
| "lines_of (c # cs) =
     (if is_lt c then [] # lines_of cs
      else (case lines_of cs of [] \<Rightarrow> [[c]] | x # xs \<Rightarrow> (c # x) # xs))"

fun after_first :: "string \<Rightarrow> string \<Rightarrow> string option" where
  "after_first needle [] = (if needle = [] then Some [] else None)"
| "after_first needle (c # cs) =
     (if prefix needle (c # cs) then Some (drop (length needle) (c # cs))
      else after_first needle cs)"

definition error_message_of_line :: "string \<Rightarrow> string option" where
  "error_message_of_line l =
     (case after_first ''error: '' l of
        None \<Rightarrow> None
      | Some m \<Rightarrow> if m = [] then None else Some m)"

definition first_error_line :: "string \<Rightarrow> string option" where
  "first_error_line stderr_text =
     (case List.map_filter error_message_of_line (lines_of stderr_text) of
        [] \<Rightarrow> None
      | m # ms \<Rightarrow> Some m)"

section \<open>Example inputs\<close>

definition example_simulator :: Device where
  "example_simulator = \<lparr>udid = ''U1'', name = ''iPhone 15'', type = Simulator,
     state = ''Booted'', platform = ''iOS Simulator'', osVersion = ''17.0'', isAvailable = True\<rparr>"

definition example_phone :: Device where
  "example_phone = \<lparr>udid = ''P1'', name = ''My Phone'', type = PhysicalDevice,
     state = ''Connected'', platform = ''iOS'', osVersion = ''17.0'', isAvailable = True\<rparr>"

definition console_options :: "Device \<Rightarrow> LogStreamOptions" where
  "console_options d = \<lparr>device = d, bundleId = ''com.x.App'', mode = Some Stdout\<rparr>"

definition booted_shell :: shell where
  "booted_shell cmd = Inl (JsError (Some (''Command failed: '' @ cmd @ [LF]
     @ ''Unable to boot device in current state: Booted'' @ [LF])))"

definition failing_shell :: shell where
  "failing_shell cmd = Inl (JsError (Some (''Command failed: '' @ cmd)))"

text \<open>
  A simulator backend with three runtimes, 17.0, 16.4 and 17.2 in the order of the
  output, one shut down device each; and a physical backend with one wired device.
\<close>

definition example_simctl_stdout :: string where
  \<open>example_simctl_stdout = ''{"devices":{''
     @ ''"com.apple.CoreSimulator.SimRuntime.iOS-17-0":[{"udid":"A","name":"iPhone 15","state":"Shutdown","isAvailable":true}],''
     @ ''"com.apple.CoreSimulator.SimRuntime.iOS-16-4":[{"udid":"B","name":"iPhone 14","state":"Shutdown","isAvailable":true}],''
     @ ''"com.apple.CoreSimulator.SimRuntime.iOS-17-2":[{"udid":"C","name":"iPhone 15 Pro","state":"Shutdown","isAvailable":true}]}}''\<close>

definition example_simctl_output :: SimctlOutput where
  "example_simctl_output =
     [(''com.apple.CoreSimulator.SimRuntime.iOS-17-0'',
       [\<lparr>sim_udid = ''A'', sim_name = ''iPhone 15'', sim_state = ''Shutdown'',
         sim_isAvailable = True\<rparr>]),
      (''com.apple.CoreSimulator.SimRuntime.iOS-16-4'',
       [\<lparr>sim_udid = ''B'', sim_name = ''iPhone 14'', sim_state = ''Shutdown'',
         sim_isAvailable = True\<rparr>]),
      (''com.apple.CoreSimulator.SimRuntime.iOS-17-2'',
       [\<lparr>sim_udid = ''C'', sim_name = ''iPhone 15 Pro'', sim_state = ''Shutdown'',
         sim_isAvailable = True\<rparr>])]"

definition example_parse_simctl :: "string \<Rightarrow> js_error + SimctlOutput" where
  "example_parse_simctl out =
     (if out = example_simctl_stdout then Inr example_simctl_output
      else Inl (JsError (Some ''Unexpected end of JSON input'')))"

definition example_devicectl_stdout :: string where
  \<open>example_devicectl_stdout = ''{"result":{"devices":[{"identifier":"ID1",''
     @ ''"connectionProperties":{"transportType":"wired"},''
     @ ''"hardwareProperties":{"udid":"P1"},''
     @ ''"deviceProperties":{"name":"My Phone","osVersionNumber":"17.4"}}]}}''\<close>

definition example_parse_devicectl :: "string \<Rightarrow> js_error + DevicectlDevice list" where
  "example_parse_devicectl out =
     (if out = example_devicectl_stdout then
        Inr [\<lparr>transportType = Some ''wired'', hardware_udid = Some ''P1'',
              device_identifier = ''ID1'', device_name = Some ''My Phone'',
              osVersionNumber = Some ''17.4''\<rparr>]
      else Inl (JsError (Some ''Unexpected end of JSON input'')))"

text \<open>
  A host where only the simulator query works, one where only \<open>devicectl\<close> does, and one
  where both do.
\<close>

definition simulators_only_shell :: shell where
  "simulators_only_shell cmd =
     (if cmd = simctl_list_command then Inr example_simctl_stdout
      else Inl (JsError (Some (''Command failed: '' @ cmd))))"

definition devicectl_only_shell :: shell where
  "devicectl_only_shell cmd =
     (if cmd = devicectl_command then Inr example_devicectl_stdout
      else Inl (JsError (Some (''Command failed: '' @ cmd))))"

definition both_shell :: shell where
  "both_shell cmd =
     (if cmd = simctl_list_command then Inr example_simctl_stdout
      else if cmd = devicectl_command then Inr example_devicectl_stdout
      else Inl (JsError (Some (''Command failed: '' @ cmd))))"

definition example_simulators :: "Device list" where
  "example_simulators =
     [\<lparr>udid = ''A'', name = ''iPhone 15'', type = Simulator, state = ''Shutdown'',
       platform = ''iOS Simulator'', osVersion = ''17.0'', isAvailable = True\<rparr>,
      \<lparr>udid = ''B'', name = ''iPhone 14'', type = Simulator, state = ''Shutdown'',
       platform = ''iOS Simulator'', osVersion = ''16.4'', isAvailable = True\<rparr>,
      \<lparr>udid = ''C'', name = ''iPhone 15 Pro'', type = Simulator, state = ''Shutdown'',
       platform = ''iOS Simulator'', osVersion = ''17.2'', isAvailable = True\<rparr>]"

definition example_wired_phone :: Device where
  "example_wired_phone =
     \<lparr>udid = ''P1'', name = ''My Phone'', type = PhysicalDevice, state = ''Connected'',
      platform = ''iOS'', osVersion = ''17.4'', isAvailable = True\<rparr>"

text \<open>
  A host for the build examples. Its default DerivedData directory cannot be read. The
  schemes of the examples have no \<open>regex_special\<close> character and their paths come from the
  output, so neither \<open>regexp_match\<close> nor \<open>path_join\<close> of this host is ever called: the first
  is given as the host answers a text that is no pattern, the second as \<open>path.join\<close> works
  on segments that are not empty, hold no \<open>.\<close> or \<open>..\<close> part and neither start nor end with
  a slash (the first may start with one).
\<close>

fun join_slash :: "string list \<Rightarrow> string" where
  "join_slash [] = ''.''"
| "join_slash [x] = x"
| "join_slash (x # y # ys) = x @ ''/'' @ join_slash (y # ys)"

definition example_node :: node where
  "example_node = \<lparr>env_HOME = Some ''/Users/me'', env_USER = Some ''me'',
     readdirSync = (\<lambda>d. Inl (JsError (Some (''ENOENT: no such file or directory, scandir '' @ d)))),
     path_join = join_slash,
     regexp_match = (\<lambda>pattern t. Inl (JsError (Some (''Invalid regular expression: /''
       @ pattern @ ''/m''))))\<rparr>"

definition example_options :: "string \<Rightarrow> string option \<Rightarrow> BuildOptions" where
  "example_options s dd =
     \<lparr>project = \<lparr>project_path = ''/w/MyApp.xcodeproj'', project_name = ''MyApp'',
                  project_type = Project\<rparr>,
      scheme = s, build_device = example_simulator, derivedDataPath = dd, clean = False\<rparr>"

section \<open>Properties of the device session\<close>

text \<open>
  Claim C8: \<open>bootSimulator\<close> completes without raising when the boot primitive succeeds,
  and when it fails with an error whose message contains the text the backend reports
  for a device that is booted already (\<open>already_booted\<close>); the error is suppressed in
  exactly that case, and every other error of the boot primitive reaches the caller
  unchanged.
\<close>

theorem bootSimulator_already_booted:
  "(\<forall>out. execAsync (boot_command u) = Inr out \<longrightarrow> bootSimulator execAsync u = Inr ())
   \<and> (\<forall>e. execAsync (boot_command u) = Inl e \<longrightarrow>
        bootSimulator execAsync u =
          (if \<exists>m. message e = Some m \<and> js_includes m already_booted then Inr () else Inl e))"
  by (auto simp add: bootSimulator_def split: option.splits)

theorem bootSimulator_already_booted_witness:
  "bootSimulator booted_shell ''U1'' = Inr ()
   \<and> bootSimulator failing_shell ''U1''
       = Inl (JsError (Some (''Command failed: '' @ boot_command ''U1'')))"
proof -
  have inc: "js_includes (''Command failed: '' @ boot_command ''U1'' @ [LF]
     @ ''Unable to boot device in current state: Booted'' @ [LF]) already_booted"
    by (simp add: boot_command_def already_booted_def)
  have exc: "\<not> js_includes (''Command failed: '' @ boot_command ''U1'') already_booted"
    by (simp add: boot_command_def already_booted_def)
  show ?thesis
    using bootSimulator_already_booted [of booted_shell "''U1''"]
      bootSimulator_already_booted [of failing_shell "''U1''"] inc exc
    by (simp add: booted_shell_def failing_shell_def)
qed

text \<open>
  Claim C10: \<open>terminateApp\<close> never raises. For a simulator it runs the terminate
  primitive once and swallows whatever error that throws; for a physical device it runs
  no command at all.
\<close>

theorem terminateApp_never_raises:
  "fst (terminateApp execAsync d b) = Inr ()
   \<and> (type d = Simulator \<longrightarrow> snd (terminateApp execAsync d b) = [terminate_command (udid d) b])
   \<and> (type d = PhysicalDevice \<longrightarrow> snd (terminateApp execAsync d b) = [])"
  by (simp add: terminateApp_def split: sum.splits)

theorem terminateApp_never_raises_witness:
  "terminateApp failing_shell example_simulator ''com.x.App''
     = (Inr (), [terminate_command ''U1'' ''com.x.App''])
   \<and> terminateApp failing_shell example_phone ''com.x.App'' = (Inr (), [])"
  using terminateApp_never_raises [of failing_shell example_simulator "''com.x.App''"]
    terminateApp_never_raises [of failing_shell example_phone "''com.x.App''"]
  by (simp add: example_simulator_def example_phone_def prod_eq_iff)

section \<open>Properties of the log stream session\<close>

lemma stop_children [simp]: "children (snd (stopLogStream s)) = children s"
  by (simp add: stopLogStream_def split: option.splits prod.splits)

lemma stop_logProcessId [simp]: "logProcessId (snd (stopLogStream s)) = logProcessId s"
  by (simp add: stopLogStream_def split: option.splits prod.splits)

lemma start_logProcessId [simp]:
  "logProcessId (snd (startLogStream opts s)) = logProcessId s + 1"
  by (simp add: startLogStream_def spawn_def Let_def split: prod.splits)

lemma start_children:
  "\<exists>new. children (snd (startLogStream opts s)) = children s @ new
     \<and> (\<forall>c \<in> set new. currentProcessId c = logProcessId s + 1)"
  by (auto simp add: startLogStream_def spawn_def Let_def split: prod.splits)

lemma deliver_children [simp]: "children (snd (deliver h ev s)) = children s"
  by (simp add: deliver_def console_listener_def stream_listener_def
      split: listeners.splits event.splits)

lemma deliver_logProcessId [simp]: "logProcessId (snd (deliver h ev s)) = logProcessId s"
  by (simp add: deliver_def console_listener_def stream_listener_def
      split: listeners.splits event.splits)

lemma perform_mono:
  "logProcessId s \<le> logProcessId (perform a s) \<and> prefix (children s) (children (perform a s))"
proof (cases a)
  case (Start opts)
  then show ?thesis using start_children [of opts s] by auto
qed simp_all

lemma run_mono:
  "logProcessId s \<le> logProcessId (run acts s) \<and> prefix (children s) (children (run acts s))"
proof (induction acts arbitrary: s)
  case Nil
  show ?case by simp
next
  case (Cons a acts)
  have "logProcessId s \<le> logProcessId (perform a s)"
    and "prefix (children s) (children (perform a s))"
    using perform_mono [of s a] by simp_all
  moreover have "logProcessId (perform a s) \<le> logProcessId (run acts (perform a s))"
    and "prefix (children (perform a s)) (children (run acts (perform a s)))"
    using Cons.IH [of "perform a s"] by simp_all
  ultimately show ?case by (auto intro: prefix_order.trans)
qed

lemma stale_discarded:
  assumes "h < length (children s)" and "currentProcessId (children s ! h) \<noteq> logProcessId s"
  shows "deliver h ev s = ([], s)"
  using assms
  by (simp add: deliver_def console_listener_def stream_listener_def split: listeners.splits)

text \<open>
  Claim C1: every \<open>startLogStream\<close> call increments \<open>logProcessId\<close>. After two calls in
  succession the listeners of the first call hold a generation strictly below the one
  of the second call, and whatever happens to the session afterwards, a chunk of standard
  output or standard error that reaches a child spawned by the first call invokes no
  callback and leaves the session as it is.
\<close>

theorem startLogStream_twice:
  assumes "startLogStream o1 s0 = (r1, s1)" and "startLogStream o2 s1 = (r2, s2)"
    and "length (children s0) \<le> h" and "h < length (children s1)"
  shows "logProcessId s1 < logProcessId s2
    \<and> currentProcessId (children s1 ! h) = logProcessId s1
    \<and> (\<forall>k. length (children s1) \<le> k \<and> k < length (children s2)
          \<longrightarrow> currentProcessId (children s2 ! k) = logProcessId s2)
    \<and> deliver h (StdoutData chunk) (run acts s2) = ([], run acts s2)
    \<and> deliver h (StderrData chunk) (run acts s2) = ([], run acts s2)"
proof -
  have s1: "s1 = snd (startLogStream o1 s0)" and s2: "s2 = snd (startLogStream o2 s1)"
    using assms(1,2) by simp_all
  obtain new1 where n1: "children s1 = children s0 @ new1"
    and g1: "\<forall>c \<in> set new1. currentProcessId c = logProcessId s0 + 1"
    using start_children [of o1 s0] s1 by auto
  obtain new2 where n2: "children s2 = children s1 @ new2"
    and g2: "\<forall>c \<in> set new2. currentProcessId c = logProcessId s1 + 1"
    using start_children [of o2 s1] s2 by auto
  have id1: "logProcessId s1 = logProcessId s0 + 1" using s1 by simp
  have id2: "logProcessId s2 = logProcessId s1 + 1" using s2 by simp
  have "h - length (children s0) < length new1" using assms(3,4) n1 by auto
  then have "new1 ! (h - length (children s0)) \<in> set new1" by (rule nth_mem)
  then have h1: "children s1 ! h \<in> set new1"
    using assms(3,4) n1 by (auto simp add: nth_append)
  have gen_h: "currentProcessId (children s1 ! h) = logProcessId s1"
    using g1 h1 id1 by simp
  have second: "\<forall>k. length (children s1) \<le> k \<and> k < length (children s2)
          \<longrightarrow> currentProcessId (children s2 ! k) = logProcessId s2"
  proof (intro allI impI)
    fix k assume k: "length (children s1) \<le> k \<and> k < length (children s2)"
    then have "k - length (children s1) < length new2" using n2 by auto
    then have "new2 ! (k - length (children s1)) \<in> set new2" by (rule nth_mem)
    then have "children s2 ! k \<in> set new2" using k n2 by (auto simp add: nth_append)
    then show "currentProcessId (children s2 ! k) = logProcessId s2" using g2 id2 by simp
  qed
  let ?t = "run acts s2"
  have le: "logProcessId s2 \<le> logProcessId ?t" and pre: "prefix (children s2) (children ?t)"
    using run_mono [of s2 acts] by simp_all
  have pre1: "prefix (children s1) (children ?t)"
    using pre n2 by (metis prefix_order.trans prefixI)
  then obtain rest where rest: "children ?t = children s1 @ rest" by (auto simp: prefix_def)
  have lt: "h < length (children ?t)" using assms(4) rest by simp
  have same: "children ?t ! h = children s1 ! h" using assms(4) rest by (simp add: nth_append)
  have stale: "currentProcessId (children ?t ! h) \<noteq> logProcessId ?t"
    using same gen_h id2 le by simp
  show ?thesis
    using id2 gen_h second stale_discarded [OF lt stale] by simp
qed

theorem startLogStream_twice_witness:
  "logProcessId (snd (startLogStream (console_options example_simulator) initial)) = 1
   \<and> logProcessId (snd (startLogStream (console_options example_simulator)
        (snd (startLogStream (console_options example_simulator) initial)))) = 2
   \<and> fst (deliver 0 (StdoutData ''late'')
        (run [Deliver 1 (StdoutData ''new'')]
          (snd (startLogStream (console_options example_simulator)
            (snd (startLogStream (console_options example_simulator) initial)))))) = []"
proof -
  let ?o = "console_options example_simulator"
  let ?s1 = "snd (startLogStream ?o initial)"
  let ?s2 = "snd (startLogStream ?o ?s1)"
  have a: "startLogStream ?o initial = (fst (startLogStream ?o initial), ?s1)" by simp
  have b: "startLogStream ?o ?s1 = (fst (startLogStream ?o ?s1), ?s2)" by simp
  have c: "length (children initial) \<le> 0" by (simp add: initial_def)
  have d: "0 < length (children ?s1)"
    by (simp add: startLogStream_def stopLogStream_def spawn_def initial_def
        console_options_def example_simulator_def)
  have e: "logProcessId initial = 0" by (simp add: initial_def)
  show ?thesis
    using startLogStream_twice [OF a b c d, of "''late''" "[Deliver 1 (StdoutData ''new'')]"] e
    by simp
qed

text \<open>
  What the listeners forward while their generation is the current one: the lines of a
  chunk that hold a character other than white space, in their order; the \<open>Console\<close>
  listeners tag the lines of standard error and pass them to \<open>onLog\<close>, the \<open>Stream\<close>
  listeners pass a chunk of standard error to \<open>onError\<close>.
\<close>

lemma dropWhile_empty_iff: "dropWhile P xs = [] \<longleftrightarrow> (\<forall>x \<in> set xs. P x)"
  by (induction xs) auto

lemma dropWhile_head: "dropWhile P xs = y # ys \<Longrightarrow> \<not> P y"
  by (induction xs) (auto split: if_splits)

lemma trim_empty_iff: "trim l = [] \<longleftrightarrow> (\<forall>c \<in> set l. is_ws c)"
proof
  assume e: "trim l = []"
  then have "dropWhile is_ws (rev (dropWhile is_ws l)) = []"
    by (simp only: trim_def rev_is_Nil_conv)
  then have all: "\<forall>c \<in> set (dropWhile is_ws l). is_ws c"
    by (simp only: dropWhile_empty_iff set_rev)
  show "\<forall>c \<in> set l. is_ws c"
  proof (cases "dropWhile is_ws l")
    case Nil
    then show ?thesis by (simp only: dropWhile_empty_iff)
  next
    case (Cons x xs)
    then have "\<not> is_ws x" by (rule dropWhile_head)
    then show ?thesis using all Cons by simp
  qed
next
  assume "\<forall>c \<in> set l. is_ws c"
  then have "dropWhile is_ws l = []" by (simp only: dropWhile_empty_iff)
  then show "trim l = []" by (simp only: trim_def rev.simps dropWhile.simps)
qed

lemma log_lines_nonblank:
  "log_lines chunk = filter (\<lambda>l. \<exists>c \<in> set l. \<not> is_ws c) (split_on LF chunk)"
  by (simp add: log_lines_def trim_empty_iff)

lemma console_listener_current:
  assumes "currentProcessId c = logProcessId s"
  shows "console_listener c (StdoutData chunk) s = (map OnLog (log_lines chunk), s)"
    and "console_listener c (StderrData chunk) s
      = (map (\<lambda>l. OnLog (''[stderr] '' @ l)) (log_lines chunk), s)"
    and "console_listener c (SpawnError msg) s = ([OnError msg], s)"
  using assms by (simp_all add: console_listener_def)

lemma stream_listener_current:
  assumes "currentProcessId c = logProcessId s"
  shows "stream_listener c (StdoutData chunk) s = (map OnLog (log_lines chunk), s)"
    and "stream_listener c (StderrData chunk) s = ([OnError chunk], s)"
  using assms by (simp_all add: stream_listener_def)

lemma simulator_console_stderr_tagged:
  "fst (deliver 0 (StderrData (''oops'' @ [LF]))
     (snd (startLogStream (console_options example_simulator) initial)))
   = [OnLog ''[stderr] oops'']"
  by (simp add: startLogStream_def stopLogStream_def spawn_def initial_def
      console_options_def example_simulator_def deliver_def console_listener_def
      log_lines_def trim_def is_ws_def)

text \<open>
  Claim C5, evaluated: \<open>stopLogStream\<close> leaves \<open>logProcessId\<close> as it is, so after a stop
  with no new start the listeners of the stopped child still hold the current
  generation, and a late chunk of its standard output is forwarded to \<open>onLog\<close>.
\<close>

theorem stop_then_trailing_output:
  "deliver 0 (StdoutData (''late'' @ [LF]))
     (snd (stopLogStream (snd (startLogStream (console_options example_simulator) initial))))
   = ([OnLog ''late''],
      snd (stopLogStream (snd (startLogStream (console_options example_simulator) initial))))"
  by (simp add: startLogStream_def stopLogStream_def spawn_def initial_def
      console_options_def example_simulator_def deliver_def console_listener_def
      log_lines_def trim_def is_ws_def)

text \<open>
  Claim C9, evaluated: for a physical device the console process of the \<open>stdout\<close> mode is
  \<open>logProcess\<close> with the \<open>Stream\<close> listeners, which pass a chunk of its standard error to
  \<open>onError\<close> whole and without a tag.
\<close>

theorem phone_stderr_to_onError:
  "fst (deliver 0 (StderrData (''oops'' @ [LF]))
     (snd (startLogStream (console_options example_phone) initial)))
   = [OnError (''oops'' @ [LF])]"
  by (simp add: startLogStream_def stopLogStream_def spawn_def initial_def
      console_options_def example_phone_def deliver_def stream_listener_def)

section \<open>Properties of the target catalog\<close>

lemma listSimulators_total:
  "\<exists>sims. listSimulators execAsync parse = Inr sims"
  by (simp add: listSimulators_def split: sum.splits)

lemma listDevicesWithDevicectl_total:
  "\<exists>ds. listDevicesWithDevicectl execAsync parse = Inr ds"
  by (simp add: listDevicesWithDevicectl_def split: sum.splits)

lemma listDevicesWithInstruments_total:
  "\<exists>ds. listDevicesWithInstruments execAsync = Inr ds"
  by (simp add: listDevicesWithInstruments_def split: sum.splits)

lemma listRealDevices_total:
  "\<exists>reals. listRealDevices execAsync parse = Inr reals"
  by (simp add: listRealDevices_def split: sum.splits)

lemma listSimulators_failed:
  "query_failed execAsync simctl_list_command parse \<Longrightarrow> listSimulators execAsync parse = Inr []"
  by (simp add: query_failed_def listSimulators_def listSimulators_body_def split: sum.splits)

lemma listDevicesWithDevicectl_failed:
  "query_failed execAsync devicectl_command parse
     \<Longrightarrow> listDevicesWithDevicectl execAsync parse = Inr []"
  by (simp add: query_failed_def listDevicesWithDevicectl_def split: sum.splits)

lemma listRealDevices_fallback:
  assumes "query_failed execAsync devicectl_command parse"
  shows "listRealDevices execAsync parse = listDevicesWithInstruments execAsync"
proof -
  obtain ds where "listDevicesWithInstruments execAsync = Inr ds"
    using listDevicesWithInstruments_total by blast
  then show ?thesis
    using listDevicesWithDevicectl_failed [OF assms] by (simp add: listRealDevices_def)
qed

lemma listDevicesWithInstruments_failed:
  "isl (execAsync xctrace_command) \<Longrightarrow> listDevicesWithInstruments execAsync = Inr []"
  by (cases "execAsync xctrace_command") (simp_all add: listDevicesWithInstruments_def)

lemma listSimulators_keeps_order:
  assumes "execAsync simctl_list_command = Inr out" and "parse out = Inr entries"
  shows "listSimulators execAsync parse
     = Inr (concat (map (\<lambda>(runtime, simDevices).
              map (simulator_device runtime) (filter sim_isAvailable simDevices)) entries))"
  using assms by (simp add: listSimulators_def listSimulators_body_def)

lemma listDevicesWithDevicectl_success:
  assumes "execAsync devicectl_command = Inr out" and "parse out = Inr ds"
  shows "listDevicesWithDevicectl execAsync parse = Inr (map devicectl_device (filter reachable ds))"
proof -
  have "reachable = (\<lambda>d. transportType d = Some ''wired'' \<or> transportType d = Some ''network'')"
    by (rule ext) (simp add: reachable_def)
  then show ?thesis using assms by (simp add: listDevicesWithDevicectl_def)
qed

lemma listDevicesWithInstruments_success:
  "execAsync xctrace_command = Inr out
     \<Longrightarrow> listDevicesWithInstruments execAsync = Inr (List.map_filter xctrace_device (split_on LF out))"
  by (simp add: listDevicesWithInstruments_def)

lemma listRealDevices_first:
  "listDevicesWithDevicectl execAsync parse = Inr ds \<Longrightarrow> ds \<noteq> []
     \<Longrightarrow> listRealDevices execAsync parse = Inr ds"
  by (simp add: listRealDevices_def)

lemma listRealDevices_second:
  assumes "listDevicesWithDevicectl execAsync parse = Inr []"
  shows "listRealDevices execAsync parse = listDevicesWithInstruments execAsync"
proof -
  obtain ds where "listDevicesWithInstruments execAsync = Inr ds"
    using listDevicesWithInstruments_total by blast
  then show ?thesis using assms by (simp add: listRealDevices_def)
qed

text \<open>
  Claim C6: \<open>listAllDevices\<close> always returns normally, with the simulators followed by the
  physical devices. The simulators are the available devices of the simulator query's
  output, runtime by runtime, and none when that query fails (process error or malformed
  output), whatever the physical queries do. The physical devices are the reachable
  devices of the \<open>devicectl\<close> output when there are any; when there are none, or that query
  fails, they are the devices of the \<open>xctrace\<close> output, and none when that query fails too;
  whatever the simulator query does.
\<close>

theorem listAllDevices_never_aborts:
  "\<exists>sims reals.
     listSimulators execAsync parse_simctl = Inr sims
     \<and> listRealDevices execAsync parse_devicectl = Inr reals
     \<and> listAllDevices execAsync parse_simctl parse_devicectl = Inr (sims @ reals)
     \<and> (query_failed execAsync simctl_list_command parse_simctl \<longrightarrow> sims = [])
     \<and> (query_failed execAsync devicectl_command parse_devicectl \<longrightarrow>
          listDevicesWithDevicectl execAsync parse_devicectl = Inr []
          \<and> listDevicesWithInstruments execAsync = Inr reals)
     \<and> (query_failed execAsync devicectl_command parse_devicectl
          \<and> isl (execAsync xctrace_command) \<longrightarrow> reals = [])
     \<and> (\<forall>out entries.
          execAsync simctl_list_command = Inr out \<and> parse_simctl out = Inr entries \<longrightarrow>
          sims = concat (map (\<lambda>(runtime, simDevices).
                   map (simulator_device runtime) (filter sim_isAvailable simDevices)) entries))
     \<and> (\<forall>out ds.
          execAsync devicectl_command = Inr out \<and> parse_devicectl out = Inr ds
          \<and> filter reachable ds \<noteq> [] \<longrightarrow>
          reals = map devicectl_device (filter reachable ds))
     \<and> (\<forall>out ds xout.
          execAsync devicectl_command = Inr out \<and> parse_devicectl out = Inr ds
          \<and> filter reachable ds = [] \<and> execAsync xctrace_command = Inr xout \<longrightarrow>
          reals = List.map_filter xctrace_device (split_on LF xout))
     \<and> (\<forall>xout.
          query_failed execAsync devicectl_command parse_devicectl
          \<and> execAsync xctrace_command = Inr xout \<longrightarrow>
          reals = List.map_filter xctrace_device (split_on LF xout))"
proof -
  obtain sims where s: "listSimulators execAsync parse_simctl = Inr sims"
    using listSimulators_total by blast
  obtain reals where r: "listRealDevices execAsync parse_devicectl = Inr reals"
    using listRealDevices_total by blast
  have all: "listAllDevices execAsync parse_simctl parse_devicectl = Inr (sims @ reals)"
    using s r by (simp add: listAllDevices_def)
  have f1: "query_failed execAsync simctl_list_command parse_simctl \<longrightarrow> sims = []"
    using s listSimulators_failed [of execAsync parse_simctl] by auto
  have f2: "query_failed execAsync devicectl_command parse_devicectl \<longrightarrow>
          listDevicesWithDevicectl execAsync parse_devicectl = Inr []
          \<and> listDevicesWithInstruments execAsync = Inr reals"
    using r listDevicesWithDevicectl_failed [of execAsync parse_devicectl]
      listRealDevices_fallback [of execAsync parse_devicectl] by auto
  have f3: "query_failed execAsync devicectl_command parse_devicectl
          \<and> isl (execAsync xctrace_command) \<longrightarrow> reals = []"
    using f2 listDevicesWithInstruments_failed [of execAsync] by auto
  have g1: "\<forall>out entries.
          execAsync simctl_list_command = Inr out \<and> parse_simctl out = Inr entries \<longrightarrow>
          sims = concat (map (\<lambda>(runtime, simDevices).
                   map (simulator_device runtime) (filter sim_isAvailable simDevices)) entries)"
    using s listSimulators_keeps_order [of execAsync _ parse_simctl] by auto
  have g2: "\<forall>out ds.
          execAsync devicectl_command = Inr out \<and> parse_devicectl out = Inr ds
          \<and> filter reachable ds \<noteq> [] \<longrightarrow>
          reals = map devicectl_device (filter reachable ds)"
  proof (intro allI impI)
    fix out ds
    assume a: "execAsync devicectl_command = Inr out \<and> parse_devicectl out = Inr ds
          \<and> filter reachable ds \<noteq> []"
    then have "listDevicesWithDevicectl execAsync parse_devicectl
        = Inr (map devicectl_device (filter reachable ds))"
      using listDevicesWithDevicectl_success [of execAsync out parse_devicectl ds] by simp
    moreover have "map devicectl_device (filter reachable ds) \<noteq> []" using a by simp
    ultimately have "listRealDevices execAsync parse_devicectl
        = Inr (map devicectl_device (filter reachable ds))"
      by (rule listRealDevices_first)
    then show "reals = map devicectl_device (filter reachable ds)" using r by simp
  qed
  have g3: "\<forall>out ds xout.
          execAsync devicectl_command = Inr out \<and> parse_devicectl out = Inr ds
          \<and> filter reachable ds = [] \<and> execAsync xctrace_command = Inr xout \<longrightarrow>
          reals = List.map_filter xctrace_device (split_on LF xout)"
  proof (intro allI impI)
    fix out ds xout
    assume a: "execAsync devicectl_command = Inr out \<and> parse_devicectl out = Inr ds
          \<and> filter reachable ds = [] \<and> execAsync xctrace_command = Inr xout"
    then have "listDevicesWithDevicectl execAsync parse_devicectl = Inr []"
      using listDevicesWithDevicectl_success [of execAsync out parse_devicectl ds] by simp
    then have "listRealDevices execAsync parse_devicectl = listDevicesWithInstruments execAsync"
      by (rule listRealDevices_second)
    then show "reals = List.map_filter xctrace_device (split_on LF xout)"
      using r a listDevicesWithInstruments_success [of execAsync xout] by simp
  qed
  have g4: "\<forall>xout.
          query_failed execAsync devicectl_command parse_devicectl
          \<and> execAsync xctrace_command = Inr xout \<longrightarrow>
          reals = List.map_filter xctrace_device (split_on LF xout)"
    using f2 listDevicesWithInstruments_success [of execAsync] by auto
  show ?thesis using s r all f1 f2 f3 g1 g2 g3 g4 by blast
qed

theorem listAllDevices_never_aborts_witness:
  "listAllDevices devicectl_only_shell example_parse_simctl example_parse_devicectl
     = Inr [example_wired_phone]
   \<and> listAllDevices simulators_only_shell example_parse_simctl example_parse_devicectl
     = Inr example_simulators
   \<and> listAllDevices both_shell example_parse_simctl example_parse_devicectl
     = Inr (example_simulators @ [example_wired_phone])"
proof -
  have ne: "simctl_list_command \<noteq> devicectl_command" "xctrace_command \<noteq> devicectl_command"
    "devicectl_command \<noteq> simctl_list_command" "xctrace_command \<noteq> simctl_list_command"
    by (simp_all add: simctl_list_command_def devicectl_command_def xctrace_command_def)
  have v: "simulator_osVersion ''com.apple.CoreSimulator.SimRuntime.iOS-17-0'' = ''17.0''"
    "simulator_osVersion ''com.apple.CoreSimulator.SimRuntime.iOS-16-4'' = ''16.4''"
    "simulator_osVersion ''com.apple.CoreSimulator.SimRuntime.iOS-17-2'' = ''17.2''"
    by (simp_all add: simulator_osVersion_def runtimeMatch_def runtime_at_def is_digit_def)
  have sims: "concat (map (\<lambda>(runtime, simDevices).
        map (simulator_device runtime) (filter sim_isAvailable simDevices)) example_simctl_output)
      = example_simulators"
    using v by (simp add: example_simctl_output_def example_simulators_def simulator_device_def)
  have ps: "example_parse_simctl example_simctl_stdout = Inr example_simctl_output"
    by (simp add: example_parse_simctl_def)
  obtain ds where pd: "example_parse_devicectl example_devicectl_stdout = Inr ds"
    and reach: "filter reachable ds \<noteq> []"
    and phone: "map devicectl_device (filter reachable ds) = [example_wired_phone]"
    by (simp add: example_parse_devicectl_def reachable_def devicectl_device_def or_else_def
        example_wired_phone_def)
  have a1: "query_failed devicectl_only_shell simctl_list_command example_parse_simctl"
    using ne by (simp add: query_failed_def devicectl_only_shell_def)
  have a2: "devicectl_only_shell devicectl_command = Inr example_devicectl_stdout"
    by (simp add: devicectl_only_shell_def)
  have b1: "simulators_only_shell simctl_list_command = Inr example_simctl_stdout"
    by (simp add: simulators_only_shell_def)
  have b2: "query_failed simulators_only_shell devicectl_command example_parse_devicectl"
    using ne by (simp add: query_failed_def simulators_only_shell_def)
  have b3: "isl (simulators_only_shell xctrace_command)"
    using ne by (simp add: simulators_only_shell_def)
  have c1: "both_shell simctl_list_command = Inr example_simctl_stdout"
    by (simp add: both_shell_def)
  have c2: "both_shell devicectl_command = Inr example_devicectl_stdout"
    using ne by (simp add: both_shell_def)
  have first: "listAllDevices devicectl_only_shell example_parse_simctl example_parse_devicectl
     = Inr [example_wired_phone]"
    using listAllDevices_never_aborts
        [of devicectl_only_shell example_parse_simctl example_parse_devicectl]
      a1 a2 pd reach phone
    by (metis append_Nil)
  have second: "listAllDevices simulators_only_shell example_parse_simctl example_parse_devicectl
     = Inr example_simulators"
    using listAllDevices_never_aborts
        [of simulators_only_shell example_parse_simctl example_parse_devicectl]
      b1 b2 b3 ps sims
    by (metis append_Nil2)
  have third: "listAllDevices both_shell example_parse_simctl example_parse_devicectl
     = Inr (example_simulators @ [example_wired_phone])"
    using listAllDevices_never_aborts
        [of both_shell example_parse_simctl example_parse_devicectl]
      c1 c2 ps sims pd reach phone
    by metis
  show ?thesis using first second third by simp
qed

text \<open>
  Claim C2, evaluated: \<open>listAllDevices\<close> returns the simulators in the order of the
  backend's output. With the runtimes 17.0, 16.4 and 17.2 in that order and no device
  booted, the catalog lists 17.0, 16.4, 17.2.
\<close>

theorem listAllDevices_backend_order:
  "listAllDevices simulators_only_shell example_parse_simctl example_parse_devicectl
     = Inr [\<lparr>udid = ''A'', name = ''iPhone 15'', type = Simulator, state = ''Shutdown'',
             platform = ''iOS Simulator'', osVersion = ''17.0'', isAvailable = True\<rparr>,
            \<lparr>udid = ''B'', name = ''iPhone 14'', type = Simulator, state = ''Shutdown'',
             platform = ''iOS Simulator'', osVersion = ''16.4'', isAvailable = True\<rparr>,
            \<lparr>udid = ''C'', name = ''iPhone 15 Pro'', type = Simulator, state = ''Shutdown'',
             platform = ''iOS Simulator'', osVersion = ''17.2'', isAvailable = True\<rparr>]"
proof -
  have ne: "devicectl_command \<noteq> simctl_list_command" "xctrace_command \<noteq> simctl_list_command"
    by (simp_all add: simctl_list_command_def devicectl_command_def xctrace_command_def)
  have v: "simulator_osVersion ''com.apple.CoreSimulator.SimRuntime.iOS-17-0'' = ''17.0''"
    "simulator_osVersion ''com.apple.CoreSimulator.SimRuntime.iOS-16-4'' = ''16.4''"
    "simulator_osVersion ''com.apple.CoreSimulator.SimRuntime.iOS-17-2'' = ''17.2''"
    by (simp_all add: simulator_osVersion_def runtimeMatch_def runtime_at_def is_digit_def)
  have s: "listSimulators simulators_only_shell example_parse_simctl
     = Inr [\<lparr>udid = ''A'', name = ''iPhone 15'', type = Simulator, state = ''Shutdown'',
             platform = ''iOS Simulator'', osVersion = ''17.0'', isAvailable = True\<rparr>,
            \<lparr>udid = ''B'', name = ''iPhone 14'', type = Simulator, state = ''Shutdown'',
             platform = ''iOS Simulator'', osVersion = ''16.4'', isAvailable = True\<rparr>,
            \<lparr>udid = ''C'', name = ''iPhone 15 Pro'', type = Simulator, state = ''Shutdown'',
             platform = ''iOS Simulator'', osVersion = ''17.2'', isAvailable = True\<rparr>]"
    using v
    by (simp add: listSimulators_def listSimulators_body_def simulators_only_shell_def
        example_parse_simctl_def example_simctl_output_def simulator_device_def)
  have r: "listRealDevices simulators_only_shell example_parse_devicectl = Inr []"
    using ne
    by (simp add: listRealDevices_def listDevicesWithDevicectl_def
        listDevicesWithInstruments_def simulators_only_shell_def)
  show ?thesis using s r by (simp add: listAllDevices_def)
qed

text \<open>
  The sorted list of \<open>simulator/list.ts\<close> on the same backend output: 17.2, 17.0, 16.4.
\<close>

lemma listSimulators_sorted_example:
  "map_sum id (map listed_runtime)
     (listSimulators_sorted simulators_only_shell example_parse_simctl localeCompare)
   = Inr [''iOS 17.2'', ''iOS 17.0'', ''iOS 16.4'']"
  by code_simp

section \<open>Properties of the build session\<close>

subsection \<open>Progress notifications\<close>

text \<open>The phases that notify: every phase that differs from the one before it.\<close>

lemma phase_at_nonempty: "phase_at s = Some p \<Longrightarrow> p \<noteq> []"
proof -
  assume "phase_at s = Some p"
  then have "p \<in> set phases"
    unfolding phase_at_def by (auto simp add: find_Some_iff)
  then show "p \<noteq> []" by (auto simp add: phases_def)
qed

lemma phase_search_nonempty: "phase_search b s = Some p \<Longrightarrow> p \<noteq> []"
proof (induction s arbitrary: b)
  case Nil
  then have "phase_at [] = Some p" by (simp split: if_splits)
  then show ?case by (rule phase_at_nonempty)
next
  case (Cons c cs)
  show ?case
  proof (cases "b \<and> phase_at (c # cs) \<noteq> None")
    case True
    then have "phase_at (c # cs) = Some p" using Cons.prems by auto
    then show ?thesis by (rule phase_at_nonempty)
  next
    case False
    then have "phase_search (is_lt c) cs = Some p"
      using Cons.prems by (auto split: if_splits)
    then show ?thesis by (rule Cons.IH)
  qed
qed

lemma phaseMatch_nonempty: "phaseMatch chunk = Some p \<Longrightarrow> p \<noteq> []"
  by (auto simp add: phaseMatch_def dest: phase_search_nonempty)

lemma map_filter_Cons:
  "List.map_filter f (x # xs) = (case f x of None \<Rightarrow> List.map_filter f xs
     | Some y \<Rightarrow> y # List.map_filter f xs)"
  by (simp add: List.map_filter_def split: option.splits)

lemma build_loop_feed:
  "build_loop n opts (map pipe_event cs @ evs) v = build_loop n opts evs (feed cs v)"
proof (induction cs arbitrary: v)
  case Nil
  show ?case by simp
next
  case (Cons c cs)
  then show ?case by (cases c) simp_all
qed

lemma on_stdout_errorOutput: "errorOutput (on_stdout chunk v) = errorOutput v"
  by (simp add: on_stdout_def Let_def split: option.splits)

lemma on_stdout_buildOutput: "buildOutput (on_stdout chunk v) = buildOutput v @ chunk"
  by (simp add: on_stdout_def Let_def split: option.splits)

lemma feed_errorOutput: "errorOutput (feed cs v) = errorOutput v @ concat (errs cs)"
proof (induction cs arbitrary: v)
  case Nil
  show ?case by simp
next
  case (Cons c cs)
  then show ?case
    by (cases c) (simp_all add: on_stdout_errorOutput on_stdout_buildOutput on_stderr_def)
qed

lemma feed_buildOutput: "buildOutput (feed cs v) = buildOutput v @ concat (outs cs)"
proof (induction cs arbitrary: v)
  case Nil
  show ?case by simp
next
  case (Cons c cs)
  then show ?case
    by (cases c) (simp_all add: on_stdout_errorOutput on_stdout_buildOutput on_stderr_def)
qed

lemma remdups_adj_head: "\<exists>r. remdups_adj (p # ps) = p # r"
  by (induction ps) auto

lemma feed_notified:
  "notified (feed cs v)
     = notified v @ map (\<lambda>p. p @ ''...'')
         (tl (remdups_adj (lastPhase v # List.map_filter phaseMatch (outs cs))))"
proof (induction cs arbitrary: v)
  case Nil
  show ?case by (simp add: List.map_filter_def)
next
  case (Cons c cs)
  show ?case
  proof (cases c)
    case (Err chunk)
    then show ?thesis using Cons.IH [of "on_stderr chunk v"] by (simp add: on_stderr_def)
  next
    case (Out chunk)
    let ?ps = "List.map_filter phaseMatch (outs cs)"
    show ?thesis
    proof (cases "phaseMatch chunk")
      case None
      then have "lastPhase (on_stdout chunk v) = lastPhase v"
        and "notified (on_stdout chunk v) = notified v"
        by (simp_all add: on_stdout_def Let_def)
      then show ?thesis
        using Out None Cons.IH [of "on_stdout chunk v"] by (simp add: map_filter_Cons)
    next
      case (Some p)
      show ?thesis
      proof (cases "p = lastPhase v")
        case True
        then have "lastPhase (on_stdout chunk v) = lastPhase v"
          and "notified (on_stdout chunk v) = notified v"
          using Some by (simp_all add: on_stdout_def Let_def)
        then show ?thesis
          using Out Some True Cons.IH [of "on_stdout chunk v"] by (simp add: map_filter_Cons)
      next
        case False
        then have l: "lastPhase (on_stdout chunk v) = p"
          and m: "notified (on_stdout chunk v) = notified v @ [p @ ''...'']"
          using Some by (simp_all add: on_stdout_def Let_def)
        obtain r where r: "remdups_adj (p # ?ps) = p # r"
          using remdups_adj_head [of p ?ps] by blast
        have t: "remdups_adj (lastPhase v # p # ?ps) = lastPhase v # p # r"
          using False r by simp
        have "notified (feed (c # cs) v) = notified (feed cs (on_stdout chunk v))"
          using Out by simp
        also have "\<dots> = (notified v @ [p @ ''...'']) @ map (\<lambda>p. p @ ''...'') r"
          using Cons.IH [of "on_stdout chunk v"] l m r by simp
        also have "\<dots> = notified v @ map (\<lambda>p. p @ ''...'')
            (tl (remdups_adj (lastPhase v # p # ?ps)))"
          by (simp only: t list.sel list.map append_assoc append_Cons append_Nil)
        also have "\<dots> = notified v @ map (\<lambda>p. p @ ''...'')
            (tl (remdups_adj (lastPhase v # List.map_filter phaseMatch (outs (c # cs)))))"
          using Out Some by (simp only: outs.simps map_filter_Cons option.case)
        finally show ?thesis .
      qed
    qed
  qed
qed

lemma remdups_adj_from_empty:
  assumes "\<forall>p \<in> set ps. p \<noteq> []"
  shows "tl (remdups_adj ([] # ps)) = remdups_adj ps"
  using assms by (cases ps) auto

lemma map_filter_phaseMatch_nonempty: "\<forall>p \<in> set (List.map_filter phaseMatch xs). p \<noteq> []"
  by (auto simp add: List.map_filter_def dest: phaseMatch_nonempty)

lemma build_notifications:
  "snd (build n opts (map pipe_event cs @ BuildClose exit_code t # later))
     = map (\<lambda>p. p @ ''...'') (remdups_adj (List.map_filter phaseMatch (outs cs)))"
  using remdups_adj_from_empty [OF map_filter_phaseMatch_nonempty, of "outs cs"]
  by (simp add: build_def build_loop_feed feed_notified build_start_def)

text \<open>
  Claim C3, as stated, fails when the three lines arrive in one chunk: the chunk is
  searched for its first keyword only, and one notification fires.
\<close>

theorem progress_one_chunk_counterexample:
  "snd (build example_node (example_options ''MyApp'' None)
     [BuildStdout (''Compile X'' @ [LF] @ ''Compile Y'' @ [LF] @ ''Link Z'' @ [LF]),
      BuildClose (Some 0) 1200]) = [''Compile...'']"
  by (simp add: build_def build_start_def on_stdout_def phaseMatch_def phase_at_def phases_def)

text \<open>
  Claim C3, amended: every chunk of standard output is searched for the first phase
  keyword at the start of the chunk or of one of its lines, and a chunk whose keyword
  differs from the keyword found last fires one notification; a chunk with the same
  keyword, or with none, fires nothing. So the notifications of a build are the keywords
  of its chunks with adjacent repetitions removed. When the lines \<open>Compile X\<close>,
  \<open>Compile Y\<close> and \<open>Link Z\<close> arrive as three chunks, exactly two notifications fire,
  \<open>Compile...\<close> and \<open>Link...\<close>.
\<close>

theorem progress_notifications:
  "snd (build n opts (map pipe_event cs @ BuildClose exit_code t # later))
     = map (\<lambda>p. p @ ''...'') (remdups_adj (List.map_filter phaseMatch (outs cs)))
   \<and> snd (build n opts
        [BuildStdout (''Compile X'' @ [LF]), BuildStdout (''Compile Y'' @ [LF]),
         BuildStdout (''Link Z'' @ [LF]), BuildClose exit_code t])
     = [''Compile...'', ''Link...'']"
proof -
  have "snd (build n opts
        [BuildStdout (''Compile X'' @ [LF]), BuildStdout (''Compile Y'' @ [LF]),
         BuildStdout (''Link Z'' @ [LF]), BuildClose exit_code t])
     = [''Compile...'', ''Link...'']"
    by (simp add: build_def build_start_def on_stdout_def phaseMatch_def phase_at_def
        phases_def is_lt_def)
  then show ?thesis using build_notifications [of n opts cs exit_code t later] by simp
qed

subsection \<open>The error of a failed build\<close>

lemma error_at_short: "length s < 7 \<Longrightarrow> error_at s = None"
  by (auto simp add: error_at_def dest: prefix_length_le)

lemma leftmost_error_short: "length s < 7 \<Longrightarrow> leftmost error_at s = None"
proof (induction s)
  case Nil
  then show ?case by (simp add: error_at_short)
next
  case (Cons c cs)
  then show ?case by (simp add: error_at_short)
qed

lemma needle_no_terminator: "c \<in> set ''error: '' \<Longrightarrow> \<not> is_lt c"
  by (auto simp add: is_lt_def)

lemma takeWhile_all: "\<forall>c \<in> set xs. P c \<Longrightarrow> takeWhile P xs = xs"
  by (induction xs) auto

lemma error_at_line:
  assumes "\<forall>c \<in> set l. \<not> is_lt c" and "prefix ''error: '' l"
  shows "error_at l = (if drop 7 l = [] then None else Some (drop 7 l))"
proof -
  have "\<forall>c \<in> set (drop 7 l). \<not> is_lt c"
    using assms(1) by (meson in_set_dropD)
  then have tw: "takeWhile (\<lambda>c. \<not> is_lt c) (drop 7 l) = drop 7 l"
    by (rule takeWhile_all)
  have "error_at l = (let m = takeWhile (\<lambda>c. \<not> is_lt c) (drop 7 l)
      in if m = [] then None else Some m)"
    using assms(2) by (simp only: error_at_def if_True)
  also have "\<dots> = (if drop 7 l = [] then None else Some (drop 7 l))"
    by (simp only: tw Let_def)
  finally show ?thesis .
qed

lemma after_first_error_prefix:
  assumes "prefix ''error: '' l"
  shows "after_first ''error: '' l = Some (drop 7 l)"
proof (cases l)
  case Nil
  then show ?thesis using assms by simp
next
  case (Cons c cs)
  have len: "length ''error: '' = 7" by simp
  have "after_first ''error: '' (c # cs) = Some (drop (length ''error: '') (c # cs))"
    using assms Cons by (simp only: after_first.simps if_True)
  then show ?thesis using Cons len by (simp only:)
qed

text \<open>Within one line the search finds what follows the first \<open>error: \<close>, if anything does.\<close>

lemma errorMatch_line:
  assumes "\<forall>c \<in> set l. \<not> is_lt c"
  shows "leftmost error_at l = error_message_of_line l"
  using assms
proof (induction l)
  case Nil
  show ?case by (simp add: error_at_def error_message_of_line_def)
next
  case (Cons c cs)
  have tail: "leftmost error_at cs = error_message_of_line cs"
    using Cons by simp
  show ?case
  proof (cases "prefix ''error: '' (c # cs)")
    case True
    have at: "error_at (c # cs) = (if drop 7 (c # cs) = [] then None else Some (drop 7 (c # cs)))"
      using error_at_line [OF Cons.prems True] .
    have spec: "error_message_of_line (c # cs)
        = (if drop 7 (c # cs) = [] then None else Some (drop 7 (c # cs)))"
      using after_first_error_prefix [OF True] by (simp add: error_message_of_line_def)
    show ?thesis
    proof (cases "drop 7 (c # cs) = []")
      case True
      then have "length cs < 7" by simp
      then have "leftmost error_at cs = None" by (rule leftmost_error_short)
      then show ?thesis using at spec True by simp
    next
      case False
      then show ?thesis using at spec by simp
    qed
  next
    case False
    then have "error_at (c # cs) = None" by (simp only: error_at_def if_False)
    moreover have "after_first ''error: '' (c # cs) = after_first ''error: '' cs"
      using False by (simp only: after_first.simps if_False)
    then have "error_message_of_line (c # cs) = error_message_of_line cs"
      by (simp only: error_message_of_line_def)
    ultimately show ?thesis using tail by simp
  qed
qed

text \<open>An occurrence of \<open>error: \<close> does not reach across a line terminator.\<close>

lemma prefix_before_terminator:
  assumes "\<forall>c \<in> set x. \<not> is_lt c" and "is_lt t"
  shows "prefix ''error: '' (x @ t # rest) \<longleftrightarrow> prefix ''error: '' x"
proof
  assume "prefix ''error: '' (x @ t # rest)"
  then consider "prefix ''error: '' x"
    | us where "''error: '' = x @ us" and "prefix us (t # rest)"
    by (auto simp add: prefix_append)
  then show "prefix ''error: '' x"
  proof cases
    case 1
    then show ?thesis .
  next
    case 2
    show ?thesis
    proof (cases us)
      case Nil
      then show ?thesis using 2(1) by simp
    next
      case (Cons u us')
      then have "u = t" using 2(2) by simp
      then have "t \<in> set ''error: ''"
        using 2(1) Cons by (metis in_set_conv_decomp)
      then show ?thesis using assms(2) needle_no_terminator by blast
    qed
  qed
next
  assume "prefix ''error: '' x"
  then show "prefix ''error: '' (x @ t # rest)" by (simp add: prefix_prefix)
qed

lemma error_at_before_terminator:
  assumes "\<forall>c \<in> set x. \<not> is_lt c" and "is_lt t"
  shows "error_at (x @ t # rest) = error_at x"
proof (cases "prefix ''error: '' x")
  case True
  then have len: "7 \<le> length x" using prefix_length_le by fastforce
  have free: "\<forall>c \<in> set (drop 7 x). \<not> is_lt c"
    using assms(1) by (meson in_set_dropD)
  have "takeWhile (\<lambda>c. \<not> is_lt c) (drop 7 (x @ t # rest))
      = takeWhile (\<lambda>c. \<not> is_lt c) (drop 7 x @ t # rest)"
    using len by simp
  also have "\<dots> = drop 7 x"
    using free assms(2) by (simp add: takeWhile_append2 takeWhile_all)
  also have "\<dots> = takeWhile (\<lambda>c. \<not> is_lt c) (drop 7 x)"
    using free by (simp add: takeWhile_all)
  finally show ?thesis
    using True prefix_before_terminator [OF assms, of rest] by (simp add: error_at_def)
next
  case False
  then show ?thesis
    using prefix_before_terminator [OF assms, of rest] by (simp add: error_at_def)
qed

lemma errorMatch_first_line:
  assumes "\<forall>c \<in> set l. \<not> is_lt c" and "is_lt t"
  shows "leftmost error_at (l @ t # rest)
     = (case leftmost error_at l of Some m \<Rightarrow> Some m | None \<Rightarrow> leftmost error_at rest)"
  using assms(1)
proof (induction l)
  case Nil
  have "error_at (t # rest) = None"
    using assms(2) by (auto simp add: error_at_def is_lt_def)
  moreover have "error_at [] = None" by (simp add: error_at_def)
  ultimately show ?case by simp
next
  case (Cons c cs)
  have "error_at ((c # cs) @ t # rest) = error_at (c # cs)"
    using error_at_before_terminator [OF Cons.prems assms(2)] .
  then have at: "error_at (c # cs @ t # rest) = error_at (c # cs)" by simp
  have ih: "leftmost error_at (cs @ t # rest)
     = (case leftmost error_at cs of Some m \<Rightarrow> Some m | None \<Rightarrow> leftmost error_at rest)"
    using Cons by simp
  show ?case using at ih by (simp split: option.splits)
qed

lemma lines_of_nonempty: "lines_of s \<noteq> []"
  by (induction s) (auto split: list.splits)

lemma lines_of_single: "\<forall>c \<in> set l. \<not> is_lt c \<Longrightarrow> lines_of l = [l]"
proof (induction l)
  case Nil
  show ?case by simp
next
  case (Cons c cs)
  then show ?case by simp
qed

lemma lines_of_first:
  assumes "\<forall>c \<in> set l. \<not> is_lt c" and "is_lt t"
  shows "lines_of (l @ t # rest) = l # lines_of rest"
  using assms(1)
proof (induction l)
  case Nil
  show ?case using assms(2) by simp
next
  case (Cons c cs)
  then show ?case by simp
qed

lemma first_error_line_single:
  "\<forall>c \<in> set l. \<not> is_lt c \<Longrightarrow> first_error_line l = error_message_of_line l"
  by (simp add: first_error_line_def lines_of_single map_filter_Cons List.map_filter_simps
      split: option.splits)

lemma first_error_line_first:
  assumes "\<forall>c \<in> set l. \<not> is_lt c" and "is_lt t"
  shows "first_error_line (l @ t # rest)
     = (case error_message_of_line l of Some m \<Rightarrow> Some m | None \<Rightarrow> first_error_line rest)"
  using lines_of_first [OF assms, of rest]
  by (simp add: first_error_line_def map_filter_Cons split: option.splits)

text \<open>
  The search of the source over the whole text agrees with the reading by lines.
\<close>

lemma errorMatch_first_error_line: "errorMatch s = first_error_line s"
proof (induction s rule: length_induct)
  case (1 s)
  let ?l = "takeWhile (\<lambda>c. \<not> is_lt c) s"
  let ?r = "dropWhile (\<lambda>c. \<not> is_lt c) s"
  have free: "\<forall>c \<in> set ?l. \<not> is_lt c" by (auto dest: set_takeWhileD)
  show ?case
  proof (cases ?r)
    case Nil
    then have "s = ?l" by (metis append_Nil2 takeWhile_dropWhile_id)
    then have "\<forall>c \<in> set s. \<not> is_lt c" using free by simp
    then show ?thesis
      using errorMatch_line [of s] first_error_line_single [of s] by (simp add: errorMatch_def)
  next
    case (Cons t rest)
    then have t: "is_lt t" using hd_dropWhile [of "\<lambda>c. \<not> is_lt c" s] by auto
    have s: "s = ?l @ t # rest" using Cons by (metis takeWhile_dropWhile_id)
    then have "length rest < length s"
      by (metis add_Suc_right length_Cons length_append less_add_Suc2)
    then have ih: "errorMatch rest = first_error_line rest" using 1 by blast
    have "errorMatch s = leftmost error_at (?l @ t # rest)"
      using s by (simp add: errorMatch_def)
    also have "\<dots> = (case leftmost error_at ?l of Some m \<Rightarrow> Some m
        | None \<Rightarrow> leftmost error_at rest)"
      using errorMatch_first_line [OF free t] .
    also have "\<dots> = (case error_message_of_line ?l of Some m \<Rightarrow> Some m
        | None \<Rightarrow> first_error_line rest)"
      using errorMatch_line [OF free] ih by (simp add: errorMatch_def split: option.splits)
    also have "\<dots> = first_error_line (?l @ t # rest)"
      using first_error_line_first [OF free t, of rest] by simp
    finally show ?thesis using s by simp
  qed
qed

lemma errorMatch_nonempty: "errorMatch s = Some m \<Longrightarrow> m \<noteq> []"
proof -
  have "\<And>x. error_at x = Some m \<Longrightarrow> m \<noteq> []"
    by (auto simp add: error_at_def Let_def split: if_splits)
  moreover have "leftmost error_at s = Some m \<Longrightarrow> \<exists>x. error_at x = Some m"
    by (induction s) (auto split: option.splits)
  ultimately show "errorMatch s = Some m \<Longrightarrow> m \<noteq> []"
    by (auto simp add: errorMatch_def)
qed

text \<open>
  Claim C7: when the build process exits with a code other than 0, the result has
  \<open>success = False\<close>, and its error is the message of the first line of the accumulated
  standard error that matches \<open>error: <message>\<close>, or \<open>Build failed\<close> when no line does.
\<close>

theorem build_failure_error:
  assumes "exit_code \<noteq> Some 0"
  shows "fst (build n opts (map pipe_event cs @ BuildClose exit_code t # later))
     = Some \<lparr>success = False, appPath = None, duration = t,
         error = Some (case first_error_line (concat (errs cs)) of
                         Some m \<Rightarrow> m
                       | None \<Rightarrow> ''Build failed'')\<rparr>"
proof -
  have "or_else (errorMatch (concat (errs cs))) ''Build failed''
      = (case first_error_line (concat (errs cs)) of Some m \<Rightarrow> m | None \<Rightarrow> ''Build failed'')"
    using errorMatch_nonempty [of "concat (errs cs)"]
    by (auto simp add: or_else_def errorMatch_first_error_line [symmetric] split: option.splits)
  then show ?thesis
    using assms
    by (simp add: build_def build_loop_feed on_close_def feed_errorOutput build_start_def)
qed

theorem build_failure_error_witness:
  \<open>fst (build example_node (example_options ''MyApp'' None)
     [BuildStdout (''CompileC main.o'' @ [LF]),
      BuildStderr (''note: Using new build system'' @ [LF]
        @ ''error: Signing for "MyApp" requires a development team.'' @ [LF]),
      BuildClose (Some 1) 1200])
   = Some \<lparr>success = False, appPath = None, duration = 1200,
       error = Some ''Signing for "MyApp" requires a development team.''\<rparr>\<close>
proof -
  have e: "(Some 1 :: int option) \<noteq> Some 0" by simp
  have f: \<open>first_error_line (''note: Using new build system'' @ [LF]
        @ ''error: Signing for "MyApp" requires a development team.'' @ [LF])
      = Some ''Signing for "MyApp" requires a development team.''\<close>
    by (simp add: first_error_line_def error_message_of_line_def is_lt_def
        List.map_filter_def)
  show ?thesis
    using build_failure_error [OF e, of example_node "example_options ''MyApp'' None"
        "[Out (''CompileC main.o'' @ [LF]),
          Err (''note: Using new build system'' @ [LF]
            @ ''error: Signing for \"MyApp\" requires a development team.'' @ [LF])]"
        1200 "[]"] f
    by simp
qed

subsection \<open>The artifact path of a successful build\<close>

lemma build_success:
  "fst (build n opts (map pipe_event cs @ BuildClose (Some 0) t # later))
     = (case resolve_appPath n opts (concat (outs cs)) of
          Inl e \<Rightarrow> None
        | Inr p \<Rightarrow> Some \<lparr>success = True, appPath = p, duration = t, error = None\<rparr>)"
  by (simp add: build_def build_loop_feed on_close_def feed_buildOutput build_start_def
      split: sum.splits)

text \<open>
  A scheme without \<open>regex_special\<close> character is searched by \<open>appPathMatch\<close>, and the listener
  does not throw. The pattern of another scheme is the host's to read; when \<open>new RegExp\<close>
  throws on it, the promise of the build stays pending.
\<close>

lemma resolve_appPath_interpreted:
  assumes "\<not> (\<exists>c \<in> set (scheme opts). regex_special c)"
  shows "resolve_appPath n opts out
     = Inr (appPath_of_match n opts
         (appPathMatch (productDir (build_device opts)) (scheme opts) out))"
  using assms by (simp add: resolve_appPath_def appPath_search_def)

lemma build_pending_when_pattern_throws:
  assumes "\<exists>c \<in> set (scheme opts). regex_special c"
    and "regexp_match n (app_pattern_text (productDir (build_device opts)) (scheme opts))
           (concat (outs cs)) = Inl e"
  shows "fst (build n opts (map pipe_event cs @ BuildClose (Some 0) t # later)) = None"
  using assms by (simp add: build_success resolve_appPath_def appPath_search_def)

text \<open>The three ways in their order: the match, the override, the default directory.\<close>

lemma appPath_of_match_found: "appPath_of_match n opts (Some p) = Some p"
  by (simp add: appPath_of_match_def)

lemma appPath_of_match_override:
  assumes "derivedDataPath opts = Some d" and "d \<noteq> []"
  shows "appPath_of_match n opts None
     = Some (path_join n [d, ''Build/Products'', productDir (build_device opts),
         scheme opts @ ''.app''])"
  using assms by (simp add: appPath_of_match_def or_else_def)

lemma appPath_of_match_default:
  assumes "derivedDataPath opts = None \<or> derivedDataPath opts = Some []"
  shows "appPath_of_match n opts None
     = (case readdirSync n (defaultDerivedData n) of
          Inl e \<Rightarrow> None
        | Inr dirs \<Rightarrow>
            (case List.find (\<lambda>d. prefix (scheme opts) d
                                 \<or> prefix (project_name (project opts)) d) dirs of
               None \<Rightarrow> None
             | Some projectDir \<Rightarrow>
                 if projectDir = [] then None
                 else Some (path_join n [defaultDerivedData n, projectDir, ''Build/Products'',
                        productDir (build_device opts), scheme opts @ ''.app''])))"
  using assms
  by (auto simp add: appPath_of_match_def or_else_def startsWith_def
      split: sum.splits option.splits)

lemma build_success_literal:
  assumes "literal_scheme (scheme opts)"
  shows "fst (build n opts (map pipe_event cs @ BuildClose (Some 0) t # later))
     = Some \<lparr>success = True,
         appPath = appPath_of_match n opts
           (appPathMatch (productDir (build_device opts)) (scheme opts) (concat (outs cs))),
         duration = t, error = None\<rparr>"
proof -
  have "\<not> (\<exists>c \<in> set (scheme opts). regex_special c)"
    using assms by (simp add: literal_scheme_def)
  then show ?thesis by (simp add: build_success resolve_appPath_interpreted)
qed

text \<open>
  For a \<open>literal_scheme\<close> the atoms are the characters of \<open>/<productDir>/<scheme>.app\<close>.
\<close>

lemma match_atoms_Lit:
  "match_atoms (map Lit lit) s = (if prefix lit s then Some (drop (length lit) s) else None)"
proof (induction lit arbitrary: s)
  case Nil
  show ?case by simp
next
  case (Cons x xs)
  then show ?case by (cases s) simp_all
qed

lemma app_pattern_plain:
  assumes "literal_scheme s"
  shows "app_pattern dir s = map Lit (''/'' @ dir @ ''/'' @ s @ ''.app'')"
proof -
  have "\<forall>c \<in> set s. c \<noteq> CHR ''.''"
    using assms by (simp add: literal_scheme_def)
  then have "scheme_atoms s = map Lit s"
    by (simp add: scheme_atoms_def)
  then show ?thesis by (simp add: app_pattern_def)
qed

lemma try_run_sound:
  "try_run pat r k = Some p \<Longrightarrow>
     \<exists>j rest. 1 \<le> j \<and> j \<le> k \<and> match_atoms pat (drop j r) = Some rest \<and> boundary rest
       \<and> p = CHR ''/'' # take (j + length pat) r"
proof (induction k)
  case 0
  then show ?case by simp
next
  case (Suc k)
  show ?case
  proof (cases "\<exists>rest. match_atoms pat (drop (Suc k) r) = Some rest \<and> boundary rest")
    case True
    then obtain rest where m: "match_atoms pat (drop (Suc k) r) = Some rest" and b: "boundary rest"
      by blast
    then have "p = CHR ''/'' # take (Suc k + length pat) r" using Suc.prems by simp
    then show ?thesis using m b by (intro exI [of _ "Suc k"] exI [of _ rest]) simp
  next
    case False
    then have "try_run pat r k = Some p"
      using Suc.prems by (auto split: option.splits if_splits)
    then obtain j rest where "1 \<le> j" "j \<le> k" "match_atoms pat (drop j r) = Some rest"
      "boundary rest" "p = CHR ''/'' # take (j + length pat) r"
      using Suc.IH by blast
    then show ?thesis by (intro exI [of _ j] exI [of _ rest]) simp
  qed
qed

lemma try_run_complete:
  assumes "1 \<le> j" and "j \<le> k" and "match_atoms pat (drop j r) = Some rest" and "boundary rest"
  shows "try_run pat r k \<noteq> None"
  using assms(2)
proof (induction k)
  case 0
  then show ?case using assms(1) by simp
next
  case (Suc k)
  show ?case
  proof (cases "j = Suc k")
    case True
    then show ?thesis using assms(3,4) by simp
  next
    case False
    then have "try_run pat r k \<noteq> None" using Suc by simp
    then show ?thesis by (auto split: option.splits)
  qed
qed

lemma leftmost_sound: "leftmost f s = Some p \<Longrightarrow> \<exists>pre x. s = pre @ x \<and> f x = Some p"
proof (induction s)
  case Nil
  then show ?case by simp
next
  case (Cons c cs)
  show ?case
  proof (cases "f (c # cs)")
    case (Some q)
    then have "f (c # cs) = Some p" using Cons.prems by simp
    then show ?thesis by (intro exI [of _ "[]"] exI [of _ "c # cs"]) simp
  next
    case None
    then have "leftmost f cs = Some p" using Cons.prems by simp
    then obtain pre x where "cs = pre @ x" "f x = Some p" using Cons.IH by blast
    then show ?thesis by (intro exI [of _ "c # pre"] exI [of _ x]) simp
  qed
qed

lemma leftmost_complete: "f x \<noteq> None \<Longrightarrow> leftmost f (pre @ x) \<noteq> None"
proof (induction pre)
  case Nil
  then show ?case by (cases x) auto
next
  case (Cons c pre)
  then show ?case by (auto split: option.splits)
qed

lemma take_within_takeWhile:
  "j \<le> length (takeWhile P xs) \<Longrightarrow> \<forall>c \<in> set (take j xs). P c"
proof (induction xs arbitrary: j)
  case Nil
  show ?case by simp
next
  case (Cons x xs)
  show ?case
  proof (cases j)
    case 0
    then show ?thesis by simp
  next
    case (Suc i)
    then have "P x" and "i \<le> length (takeWhile P xs)"
      using Cons.prems by (auto split: if_splits)
    then show ?thesis using Suc Cons.IH [of i] by simp
  qed
qed

text \<open>
  For such a scheme a match of the source's pattern is a path of the accumulated output
  that contains the product directory and the scheme name: a slash, a run of characters
  without white space, then \<open>/<productDir>/<scheme>.app\<close>, with white space or the end of
  the output behind it. And whenever the output holds such a path, the pattern matches.
\<close>

lemma appPathMatch_sound:
  assumes "literal_scheme s" and "appPathMatch dir s out = Some p"
  shows "\<exists>pre seg post. out = pre @ p @ post
     \<and> p = ''/'' @ seg @ ''/'' @ dir @ ''/'' @ s @ ''.app''
     \<and> seg \<noteq> [] \<and> (\<forall>c \<in> set seg. \<not> is_ws c) \<and> boundary post"
proof -
  define lit where "lit = ''/'' @ dir @ ''/'' @ s @ ''.app''"
  have pat: "app_pattern dir s = map Lit lit"
    using app_pattern_plain [OF assms(1)] by (simp only: lit_def)
  have "leftmost (app_at (map Lit lit)) out = Some p"
    using assms(2) by (simp only: appPathMatch_def pat)
  then have "\<exists>pre x. out = pre @ x \<and> app_at (map Lit lit) x = Some p"
    by (rule leftmost_sound)
  then obtain pre x where out: "out = pre @ x" and at: "app_at (map Lit lit) x = Some p"
    by blast
  obtain r where x: "x = CHR ''/'' # r"
    and tr: "try_run (map Lit lit) r (length (takeWhile (\<lambda>c. \<not> is_ws c) r)) = Some p"
    using at by (auto simp add: app_at_def split: list.splits if_splits)
  obtain j rest where j: "1 \<le> j" "j \<le> length (takeWhile (\<lambda>c. \<not> is_ws c) r)"
    and m: "match_atoms (map Lit lit) (drop j r) = Some rest" and b: "boundary rest"
    and p: "p = CHR ''/'' # take (j + length (map Lit lit)) r"
    using try_run_sound [OF tr] by blast
  have "(if prefix lit (drop j r) then Some (drop (length lit) (drop j r)) else None) = Some rest"
    using m by (simp only: match_atoms_Lit)
  then have pl: "prefix lit (drop j r)" and rest: "rest = drop (length lit) (drop j r)"
    by (simp_all only: split: if_splits) simp_all
  obtain zs where zs: "drop j r = lit @ zs"
    using pl by (auto simp add: prefix_def)
  have "rest = drop (length lit) (lit @ zs)" using rest by (simp only: zs)
  then have "rest = zs" by simp
  then have dj: "drop j r = lit @ rest" using zs by simp
  define seg where "seg = take j r"
  have "seg @ drop j r = r" by (simp add: seg_def)
  then have r: "r = seg @ lit @ rest" by (simp only: dj)
  have "j \<le> length r"
    using j(2) length_takeWhile_le [of "\<lambda>c. \<not> is_ws c" r] by simp
  then have lenj: "length seg = j" by (simp add: seg_def)
  have "take (j + length lit) (seg @ lit @ rest) = seg @ lit"
    using lenj by simp
  then have "take (j + length lit) r = seg @ lit" by (simp only: r [symmetric])
  then have p': "p = ''/'' @ seg @ lit" using p by simp
  have nows: "\<forall>c \<in> set seg. \<not> is_ws c"
    using take_within_takeWhile [OF j(2)] by (simp only: seg_def)
  have ne: "seg \<noteq> []" using lenj j(1) by auto
  have "x = ''/'' @ seg @ lit @ rest" using x r by simp
  then have "out = pre @ p @ rest" using out p' by simp
  moreover have "p = ''/'' @ seg @ ''/'' @ dir @ ''/'' @ s @ ''.app''"
    using p' by (simp only: lit_def)
  ultimately show ?thesis using ne nows b by blast
qed

lemma appPathMatch_complete:
  assumes "literal_scheme s"
    and "out = pre @ ''/'' @ seg @ ''/'' @ dir @ ''/'' @ s @ ''.app'' @ post"
    and "seg \<noteq> []" and "\<forall>c \<in> set seg. \<not> is_ws c" and "boundary post"
  shows "appPathMatch dir s out \<noteq> None"
proof -
  define lit where "lit = ''/'' @ dir @ ''/'' @ s @ ''.app''"
  define r where "r = seg @ lit @ post"
  have pat: "app_pattern dir s = map Lit lit"
    using app_pattern_plain [OF assms(1)] by (simp only: lit_def)
  have out: "out = pre @ CHR ''/'' # r"
    using assms(2) by (simp add: r_def lit_def)
  have "takeWhile (\<lambda>c. \<not> is_ws c) r = seg @ takeWhile (\<lambda>c. \<not> is_ws c) (lit @ post)"
    using assms(4) by (simp add: r_def takeWhile_append2)
  then have k: "length seg \<le> length (takeWhile (\<lambda>c. \<not> is_ws c) r)" by simp
  have j: "1 \<le> length seg" using assms(3) by (cases seg) simp_all
  have "drop (length seg) r = lit @ post" by (simp add: r_def)
  then have m: "match_atoms (map Lit lit) (drop (length seg) r) = Some post"
    by (simp add: match_atoms_Lit)
  have "try_run (map Lit lit) r (length (takeWhile (\<lambda>c. \<not> is_ws c) r)) \<noteq> None"
    using try_run_complete [OF j k m assms(5)] .
  then have "app_at (map Lit lit) (CHR ''/'' # r) \<noteq> None"
    by (simp add: app_at_def)
  then have "leftmost (app_at (map Lit lit)) (pre @ CHR ''/'' # r) \<noteq> None"
    by (rule leftmost_complete)
  then show ?thesis by (simp add: appPathMatch_def pat out)
qed

lemma appPath_example:
  "fst (build n (example_options ''MyScheme'' None)
     [BuildStdout (''Touch /Users/me/dd/Build/Products/Debug-iphonesimulator/MyScheme.app''
        @ '' (in target MyScheme)'' @ [LF]),
      BuildClose (Some 0) t])
   = Some \<lparr>success = True,
       appPath = Some ''/Users/me/dd/Build/Products/Debug-iphonesimulator/MyScheme.app'',
       duration = t, error = None\<rparr>"
  by code_simp

text \<open>
  Claim C4, evaluated: the scheme is put into the pattern as it is, so the dot of the
  scheme \<open>My.App\<close> matches any character. The output names no path with the scheme name,
  and an override of the output directory was supplied; the build still resolves the
  artifact to the path of another product found in the output, not to the path under
  the override.
\<close>

theorem scheme_dot_is_wildcard:
  "fst (build example_node (example_options ''My.App'' (Some ''/dd''))
     [BuildStdout (''Touch /dd/Build/Products/Debug-iphonesimulator/My-App.app'' @ [LF]),
      BuildClose (Some 0) 1200])
   = Some \<lparr>success = True,
       appPath = Some ''/dd/Build/Products/Debug-iphonesimulator/My-App.app'',
       duration = 1200, error = None\<rparr>"
  by code_simp

end
